theory Spec2Isabelle
  imports Complex_Main "HOL-Library.AList" "HOL-Library.Sublist" "HOL-Library.Multiset"
begin

section \<open>The Twitter service: clock, throttle, retry and paginated collection\<close>

subsection \<open>The world the service runs in\<close>

text \<open>
  The class \<open>TwitterServiceV2\<close> keeps \<open>requestCount\<close> and \<open>windowStartTime\<close> as private
  fields and reads the wall clock with \<open>Date.now()\<close>. The model passes them around in one
  record. Time is in milliseconds. Three more fields observe what the code does and are
  never read by it: \<open>calls\<close> counts the invocations of the upstream operation,
  \<open>sleeps\<close> lists the arguments of every \<open>this.sleep(ms)\<close> in order, and \<open>completions\<close>
  lists the clock value at every \<open>this.requestCount++\<close> of the throttle.
\<close>

record world =
  clock :: int
  requestCount :: nat
  windowStartTime :: int
  calls :: nat
  sleeps :: "int list"
  completions :: "int list"

definition init_world :: "int \<Rightarrow> world" where
  "init_world t0 =
     \<lparr>clock = t0, requestCount = 0, windowStartTime = 0, calls = 0, sleeps = [], completions = []\<rparr>"

definition MAX_REQUESTS_PER_15_MINUTES :: nat where
  "MAX_REQUESTS_PER_15_MINUTES = 50"

definition fifteenMinutes :: int where
  "fifteenMinutes = 15 * 60 * 1000"

text \<open>
  \<open>sleep(ms)\<close> is \<open>setTimeout\<close> behind a promise: the model advances the clock by exactly
  \<open>ms\<close> (a negative delay counts as none) and records the request.
\<close>

definition sleep :: "int \<Rightarrow> world \<Rightarrow> world" where
  "sleep ms w = w\<lparr>clock := clock w + max 0 ms, sleeps := sleeps w @ [ms]\<rparr>"

text \<open>\<open>throttleRequest\<close>, statement by statement.\<close>

definition throttleRequest :: "world \<Rightarrow> world" where
  "throttleRequest w =
     (let now = clock w;
          w1 = (if windowStartTime w = 0 then w\<lparr>windowStartTime := now\<rparr> else w);
          w2 = (if now - windowStartTime w1 \<ge> fifteenMinutes
                then w1\<lparr>requestCount := 0, windowStartTime := now\<rparr> else w1);
          w3 = (if requestCount w2 \<ge> MAX_REQUESTS_PER_15_MINUTES
                then (let timeRemaining = fifteenMinutes - (now - windowStartTime w2);
                          w' = sleep (timeRemaining + 1000) w2
                      in w'\<lparr>requestCount := 0, windowStartTime := clock w'\<rparr>)
                else w2)
      in w3\<lparr>requestCount := requestCount w3 + 1, completions := completions w3 @ [clock w3]\<rparr>)"

text \<open>
  A sequence of \<open>acquire()\<close> calls: each element of the list is the time that passes
  before the next call is made.
\<close>

fun acquire_all :: "nat list \<Rightarrow> world \<Rightarrow> world" where
  "acquire_all [] w = w"
| "acquire_all (idle # rest) w =
     acquire_all rest (throttleRequest (w\<lparr>clock := clock w + int idle\<rparr>))"

text \<open>The number of acquisitions that completed at a time \<open>t\<close> with \<open>lo \<le> t < hi\<close>.\<close>

definition completed_within :: "int \<Rightarrow> int \<Rightarrow> world \<Rightarrow> nat" where
  "completed_within lo hi w = length (filter (\<lambda>t. lo \<le> t \<and> t < hi) (completions w))"

text \<open>
  What holds between two calls: the count is within the quota; the window began no later
  than now and, once it has begun, less than 15 minutes ago; no acquisition completed in
  the future; and the count is the number of acquisitions since the window began.
\<close>

definition throttle_inv :: "world \<Rightarrow> bool" where
  "throttle_inv w \<longleftrightarrow>
     requestCount w \<le> MAX_REQUESTS_PER_15_MINUTES \<and>
     0 < clock w \<and>
     windowStartTime w \<le> clock w \<and>
     (if windowStartTime w = 0 then completions w = [] \<and> requestCount w = 0
      else clock w - windowStartTime w < fifteenMinutes) \<and>
     list_all (\<lambda>t. t \<le> clock w) (completions w) \<and>
     length (filter (\<lambda>t. windowStartTime w \<le> t) (completions w)) = requestCount w"


text \<open>
  What holds of the window's edge: of the acquisitions before the window began, at most
  49 completed less than 15 minutes before it began; and the window's first acquisition
  completed at the instant the window began.
\<close>

definition window_edge_inv :: "world \<Rightarrow> bool" where
  "window_edge_inv w \<longleftrightarrow>
     length (filter (\<lambda>t. windowStartTime w - fifteenMinutes < t \<and> t < windowStartTime w)
        (completions w)) \<le> MAX_REQUESTS_PER_15_MINUTES - 1 \<and>
     (windowStartTime w = 0 \<or> windowStartTime w \<in> set (completions w))"

subsection \<open>Errors, operations and the retry wrapper\<close>

text \<open>
  What an upstream call throws is an error object with an optional numeric \<open>code\<close> and a
  \<open>message\<close>. \<open>retryWithIntelligentBackoff\<close> throws the variable \<open>lastError\<close>, which is
  \<open>undefined\<close> until the first failure: a thrown value is therefore \<open>None\<close> (for
  \<open>undefined\<close>) or \<open>Some\<close> error.
\<close>

record api_error =
  code :: "int option"
  message :: string

type_synonym thrown = "api_error option"

text \<open>
  An operation is a call that reads and changes the world and either returns a value
  (\<open>Inr\<close>) or throws an error (\<open>Inl\<close>).
\<close>

type_synonym 'a operation = "world \<Rightarrow> (api_error + 'a) \<times> world"

text \<open>
  The \<open>for\<close> loop of \<open>retryWithIntelligentBackoff\<close>, from the iteration \<open>attempt\<close> on.
  The test \<open>attempt === maxRetries\<close> after the branches is kept as the source has it,
  with the fall-through to the next iteration.
\<close>

function retry_from ::
  "'a operation \<Rightarrow> string \<Rightarrow> nat \<Rightarrow> nat \<Rightarrow> thrown \<Rightarrow> world \<Rightarrow> (thrown + 'a) \<times> world"
where
  "retry_from operation operationName maxRetries attempt lastError w =
     (if attempt \<le> maxRetries then
        (case operation w of
           (Inr result, w1) \<Rightarrow> (Inr result, w1)
         | (Inl error, w1) \<Rightarrow>
             (if code error = Some 429 then
                (if attempt < maxRetries
                 then retry_from operation operationName maxRetries (attempt + 1) (Some error)
                        (sleep 3000 w1)
                 else if attempt = maxRetries then (Inl (Some error), w1)
                 else retry_from operation operationName maxRetries (attempt + 1) (Some error) w1)
              else if code error = Some 401 \<or> code error = Some 403 then (Inl (Some error), w1)
              else if code error = Some 404 then (Inl (Some error), w1)
              else
                (let delay = 2000 * int attempt in
                 if attempt < maxRetries
                 then retry_from operation operationName maxRetries (attempt + 1) (Some error)
                        (sleep delay w1)
                 else if attempt = maxRetries then (Inl (Some error), w1)
                 else retry_from operation operationName maxRetries (attempt + 1) (Some error) w1)))
      else (Inl lastError, w))"
  by pat_completeness auto
termination
  by (relation "measure (\<lambda>(operation, operationName, maxRetries, attempt, lastError, w).
        Suc maxRetries - attempt)") auto

declare retry_from.simps [simp del]

definition retryWithIntelligentBackoff ::
  "'a operation \<Rightarrow> string \<Rightarrow> nat \<Rightarrow> world \<Rightarrow> (thrown + 'a) \<times> world"
where
  "retryWithIntelligentBackoff operation operationName maxRetries w =
     retry_from operation operationName maxRetries 1 None w"

text \<open>
  An operation whose \<open>k\<close>-th invocation (counted from 0 by \<open>calls\<close>) behaves as \<open>f k\<close>.
\<close>

definition invoke :: "(nat \<Rightarrow> api_error + 'a) \<Rightarrow> 'a operation" where
  "invoke f w = (f (calls w), w\<lparr>calls := calls w + 1\<rparr>)"


subsection \<open>Pages, tweets and the state of the collection loop\<close>

text \<open>
  Of a raw tweet the collector reads \<open>id\<close>, \<open>created_at\<close> and \<open>attachments.media_keys\<close>.
  \<open>created_at\<close> is kept as the number \<open>new Date(created_at).getTime()\<close>; an absent
  \<open>attachments\<close> or \<open>media_keys\<close> is \<open>None\<close>.
\<close>

record tweet =
  tweet_id :: string
  created_at :: int
  media_keys :: "string list option"

record media_item =
  media_key :: string
  media_type :: string
  url :: "string option"
  preview_image_url :: "string option"

text \<open>
  A page: \<open>response.data?.data\<close>, \<open>response.includes?.media\<close> and
  \<open>response.data?.meta?.next_token\<close>, each possibly absent.
\<close>

record response =
  data :: "tweet list option"
  includes_media :: "media_item list option"
  next_token :: "string option"

text \<open>
  The upstream API: the outcome of its \<open>k\<close>-th invocation when it is called with the
  given pagination token.
\<close>

type_synonym api = "nat \<Rightarrow> string option \<Rightarrow> api_error + response"

definition userTimeline :: "api \<Rightarrow> string option \<Rightarrow> response operation" where
  "userTimeline upstream token = invoke (\<lambda>k. upstream k token)"

text \<open>JavaScript truthiness of \<open>string | undefined\<close>: the empty string is falsy.\<close>

definition truthy :: "string option \<Rightarrow> bool" where
  "truthy t \<longleftrightarrow> (case t of None \<Rightarrow> False | Some str \<Rightarrow> str \<noteq> [])"

definition digit_char :: "nat \<Rightarrow> char" where
  "digit_char d = ''0123456789'' ! d"

function string_of_nat :: "nat \<Rightarrow> string" where
  "string_of_nat n =
     (if n < 10 then [digit_char n] else string_of_nat (n div 10) @ [digit_char (n mod 10)])"
  by pat_completeness auto
termination
  by (relation "measure id") auto

declare string_of_nat.simps [simp del]

text \<open>The local variables of \<open>maximizeUserTweetCollection\<close> that the loop changes.\<close>

record lstate =
  allTweets :: "tweet list"
  allMediaIncludes :: "media_item list"
  errors :: "string list"
  nextToken :: "string option"
  pagesProcessed :: nat
  rateLimitHits :: nat
  hasMoreData :: bool
  shouldStop :: bool
  consecutiveEmptyPages :: nat

definition init_lstate :: lstate where
  "init_lstate =
     \<lparr>allTweets = [], allMediaIncludes = [], errors = [], nextToken = None, pagesProcessed = 0,
      rateLimitHits = 0, hasMoreData = False, shouldStop = False, consecutiveEmptyPages = 0\<rparr>"

text \<open>
  The three limits are constants in the source (\<open>maxPages = 200\<close>,
  \<open>targetTweetCount = 15000\<close>, \<open>maxEmptyPages = 3\<close>). The loop is modelled for any values
  of them, and \<open>maximizeUserTweetCollection\<close> fixes the source's.
\<close>

record limits =
  maxPages :: nat
  targetTweetCount :: nat
  maxEmptyPages :: nat

definition source_limits :: limits where
  "source_limits = \<lparr>maxPages = 200, targetTweetCount = 15000, maxEmptyPages = 3\<rparr>"

text \<open>
  How one pass through the body of the \<open>do \<dots> while\<close> ends: with \<open>break\<close>, at the loop
  condition (by \<open>continue\<close> or by reaching the end of the body), or with an exception
  that leaves the inner \<open>try\<close>/\<open>catch\<close> and is caught by the outer one.
\<close>

datatype ctl = Break | ToCondition | Escaped string

text \<open>The \<open>try\<close> block after a page has arrived.\<close>

definition on_response :: "limits \<Rightarrow> response \<Rightarrow> lstate \<Rightarrow> world \<Rightarrow> ctl \<times> lstate \<times> world" where
  "on_response cfg resp s w =
     (let page = (case data resp of None \<Rightarrow> [] | Some ts \<Rightarrow> ts);
          s1 = (if page \<noteq> []
                then s\<lparr>allTweets := allTweets s @ page, consecutiveEmptyPages := 0\<rparr>
                else s\<lparr>consecutiveEmptyPages := consecutiveEmptyPages s + 1\<rparr>)
      in if page \<noteq> [] \<and> length (allTweets s1) \<ge> targetTweetCount cfg
         then (Break, s1\<lparr>shouldStop := True\<rparr>, w)
         else if page = [] \<and> consecutiveEmptyPages s1 \<ge> maxEmptyPages cfg
         then (Break, s1\<lparr>shouldStop := True\<rparr>, w)
         else
           (let s2 = (case includes_media resp of
                        None \<Rightarrow> s1
                      | Some ms \<Rightarrow>
                          if ms \<noteq> [] then s1\<lparr>allMediaIncludes := allMediaIncludes s1 @ ms\<rparr>
                          else s1)
            in (ToCondition,
                s2\<lparr>nextToken := next_token resp, hasMoreData := truthy (next_token resp),
                   pagesProcessed := pagesProcessed s2 + 1\<rparr>,
                w)))"

text \<open>
  The inner \<open>catch\<close> block. Reading \<open>error.code\<close> of \<open>undefined\<close> is a \<open>TypeError\<close>
  raised inside the handler, which the outer \<open>catch\<close> receives.
\<close>

definition on_error :: "thrown \<Rightarrow> lstate \<Rightarrow> world \<Rightarrow> ctl \<times> lstate \<times> world" where
  "on_error thr s w =
     (case thr of
        None \<Rightarrow> (Escaped ''Cannot read properties of undefined (reading 'code')'', s, w)
      | Some error \<Rightarrow>
          if code error = Some 429 then
            (let s1 = s\<lparr>rateLimitHits := rateLimitHits s + 1,
                        errors := errors s @
                          [''Rate limit on page '' @ string_of_nat (pagesProcessed s + 1)]\<rparr>
             in if length (allTweets s1) > 0 then (Break, s1\<lparr>shouldStop := True\<rparr>, w)
                else (ToCondition, s1, sleep 5000 w))
          else
            (let s1 = s\<lparr>errors := errors s @
                          [''Page '' @ string_of_nat (pagesProcessed s + 1) @ '': '' @
                           message error]\<rparr>
             in if length (allTweets s1) > 0 then (Break, s1\<lparr>shouldStop := True\<rparr>, w)
                else (Break, s1, w)))"

text \<open>One pass through the loop body: throttle, fetch through the retry wrapper, handle.\<close>

definition fetch_page :: "api \<Rightarrow> lstate \<Rightarrow> world \<Rightarrow> (thrown + response) \<times> world" where
  "fetch_page upstream s w =
     (let token = (if truthy (nextToken s) then nextToken s else None);
          w1 = throttleRequest w
      in retryWithIntelligentBackoff (userTimeline upstream token)
           (''userTimeline page '' @ string_of_nat (pagesProcessed s + 1)) 2 w1)"

definition page_attempt :: "limits \<Rightarrow> api \<Rightarrow> lstate \<Rightarrow> world \<Rightarrow> ctl \<times> lstate \<times> world" where
  "page_attempt cfg upstream s w =
     (let fetched = fetch_page upstream s w
      in case fst fetched of
           Inr resp \<Rightarrow> on_response cfg resp s (snd fetched)
         | Inl thr \<Rightarrow> on_error thr s (snd fetched))"

definition loop_condition :: "limits \<Rightarrow> lstate \<Rightarrow> bool" where
  "loop_condition cfg s \<longleftrightarrow>
     truthy (nextToken s) \<and> pagesProcessed s < maxPages cfg \<and> \<not> shouldStop s"

text \<open>
  The \<open>do \<dots> while\<close> loop. Nothing bounds the number of passes that end in the
  rate-limit \<open>continue\<close>, so the loop is a partial function: \<open>None\<close> is a run that never
  leaves the loop.
\<close>

partial_function (option) collect_loop ::
  "limits \<Rightarrow> api \<Rightarrow> lstate \<Rightarrow> world \<Rightarrow> (ctl \<times> lstate \<times> world) option"
where
  "collect_loop cfg upstream s w =
     (let r = page_attempt cfg upstream s w
      in if fst r = ToCondition \<and> loop_condition cfg (fst (snd r))
         then collect_loop cfg upstream (fst (snd r)) (snd (snd r))
         else Some r)"


subsection \<open>Assembling the result\<close>

record resolved_media =
  rm_media_key :: string
  rm_type :: string
  rm_url :: "string option"

record processed_tweet =
  raw :: tweet
  media :: "resolved_media list"
  has_media :: bool
  collection_timestamp :: int
  tweet_url :: string

record metadata =
  totalCollected :: nat
  meta_pagesProcessed :: nat
  oldestTweetDate :: "int option"
  newestTweetDate :: "int option"
  timeSpanDays :: int
  meta_hasMoreData :: bool
  collectionStrategy :: string
  meta_rateLimitHits :: nat
  meta_errors :: "string list"

record collection_result =
  tweets :: "processed_tweet list"
  metadata :: metadata

text \<open>\<open>mediaItem.url || mediaItem.preview_image_url\<close>.\<close>

definition url_or_preview :: "media_item \<Rightarrow> string option" where
  "url_or_preview m = (if truthy (url m) then url m else preview_image_url m)"

text \<open>
  \<open>media_keys.map(key => find \<dots>).filter(Boolean)\<close>: keys that no collected media item
  carries are dropped.
\<close>

definition resolve_media :: "media_item list \<Rightarrow> tweet \<Rightarrow> resolved_media list" where
  "resolve_media pool t =
     (case media_keys t of
        None \<Rightarrow> []
      | Some keys \<Rightarrow>
          if length pool > 0
          then List.map_filter
                 (\<lambda>mediaKey.
                    map_option
                      (\<lambda>m. \<lparr>rm_media_key = media_key m, rm_type = media_type m,
                            rm_url = url_or_preview m\<rparr>)
                      (find (\<lambda>m. media_key m = mediaKey) pool))
                 keys
          else [])"

definition process_tweet :: "string \<Rightarrow> media_item list \<Rightarrow> int \<Rightarrow> tweet \<Rightarrow> processed_tweet" where
  "process_tweet username pool now t =
     (let mediaData = resolve_media pool t
      in \<lparr>raw = t, media = mediaData, has_media = (length mediaData > 0),
          collection_timestamp = now,
          tweet_url = ''https://twitter.com/'' @ username @ ''/status/'' @ tweet_id t\<rparr>)"

text \<open>\<open>Math.ceil(ms / (1000 * 60 * 60 * 24))\<close> on whole milliseconds.\<close>

definition ceil_days :: "int \<Rightarrow> int" where
  "ceil_days ms = - ((- ms) div (1000 * 60 * 60 * 24))"

text \<open>Everything after the loop: date range, media merge and the summary.\<close>

definition assemble :: "string \<Rightarrow> lstate \<Rightarrow> world \<Rightarrow> collection_result" where
  "assemble username s w =
     (let sortedTweets = sort_key created_at (allTweets s);
          oldest = (if length (allTweets s) > 0 then Some (created_at (hd sortedTweets)) else None);
          newest = (if length (allTweets s) > 0 then Some (created_at (last sortedTweets)) else None);
          span = (if length (allTweets s) > 0
                  then ceil_days (created_at (last sortedTweets) - created_at (hd sortedTweets))
                  else 0)
      in \<lparr>tweets = map (process_tweet username (allMediaIncludes s) (clock w)) (allTweets s),
          metadata =
            \<lparr>totalCollected = length (allTweets s),
             meta_pagesProcessed = pagesProcessed s,
             oldestTweetDate = oldest,
             newestTweetDate = newest,
             timeSpanDays = span,
             meta_hasMoreData = hasMoreData s,
             collectionStrategy = ''maximum_unlimited_historical'',
             meta_rateLimitHits = rateLimitHits s,
             meta_errors = errors s\<rparr>\<rparr>)"

text \<open>The outer \<open>catch (globalError)\<close>: it records the message and goes on.\<close>

definition outer_catch :: "ctl \<times> lstate \<times> world \<Rightarrow> lstate \<times> world" where
  "outer_catch r =
     (case fst r of
        Escaped msg \<Rightarrow>
          ((fst (snd r))\<lparr>errors := errors (fst (snd r)) @ [''Global error: '' @ msg]\<rparr>, snd (snd r))
      | _ \<Rightarrow> snd r)"

text \<open>
  The function from a given state of its local variables on: the loop, the outer
  \<open>catch\<close>, the assembly. It has no error branch: every \<open>throw\<close> inside it is caught by
  one of its two handlers. \<open>None\<close> is a run that never returns.
\<close>

definition collect_from ::
  "limits \<Rightarrow> api \<Rightarrow> string \<Rightarrow> lstate \<Rightarrow> world \<Rightarrow> (collection_result \<times> world) option"
where
  "collect_from cfg upstream username s w =
     map_option
       (\<lambda>r. (assemble username (fst (outer_catch r)) (snd (outer_catch r)), snd (outer_catch r)))
       (collect_loop cfg upstream s w)"

text \<open>
  \<open>client userId\<close> is the timeline endpoint \<open>this.client.v2.userTimeline(userId, \<dots>)\<close>.
\<close>

definition maximizeUserTweetCollection ::
  "(string \<Rightarrow> api) \<Rightarrow> string \<Rightarrow> string \<Rightarrow> world \<Rightarrow> (collection_result \<times> world) option"
where
  "maximizeUserTweetCollection client userId username w =
     collect_from source_limits (client userId) username init_lstate w"

text \<open>
  The states in which a run stands at the top of the loop body: the start, and every
  state in which a pass ended at the loop condition and the condition held.
\<close>

inductive reaches :: "limits \<Rightarrow> api \<Rightarrow> lstate \<times> world \<Rightarrow> lstate \<times> world \<Rightarrow> bool"
  for cfg :: limits and upstream :: api and start :: "lstate \<times> world"
where
  at_start: "reaches cfg upstream start start"
| next_pass:
    "reaches cfg upstream start (s, w) \<Longrightarrow>
     page_attempt cfg upstream s w = (ToCondition, s', w') \<Longrightarrow>
     loop_condition cfg s' \<Longrightarrow>
     reaches cfg upstream start (s', w')"


section \<open>The client-side cache\<close>

subsection \<open>Cached data\<close>

text \<open>
  Of a \<open>CachedAccountData\<close> the cache reads \<open>tweets.length\<close>,
  \<open>stats.engagement.totalEngagement\<close>, \<open>collectionMetadata.timeSpanDays\<close> and
  \<open>collectionMetadata.collectionTime\<close>; the latter is kept as the number
  \<open>new Date(collectionTime).getTime()\<close>.
\<close>

record CachedTweet =
  ct_id :: string
  ct_text :: string

record CachedAccountData =
  cached_tweets :: "CachedTweet list"
  stats_totalEngagement :: int
  cm_timeSpanDays :: int
  cm_collectionTime :: int

record globalMetadata =
  lastUpdated :: int
  version :: string
  totalAccounts :: nat
  totalTweets :: nat
  cachingStrategy :: string

record MaximizedCacheData =
  accounts :: "(string \<times> CachedAccountData) list"
  globalMetadata :: globalMetadata

definition CACHE_DURATION :: int where
  "CACHE_DURATION = 4 * 60 * 60 * 1000"

definition MAX_STORAGE_SIZE :: nat where
  "MAX_STORAGE_SIZE = 50 * 1024 * 1024"

subsection \<open>JavaScript objects\<close>

text \<open>
  An object with string keys is the list of its own properties in the order in which
  \<open>Object.entries\<close>, \<open>Object.keys\<close>, \<open>Object.values\<close> and \<open>JSON.stringify\<close> go through
  them: first the keys that are array indices, in ascending numeric order, then the
  other keys in the order of their creation. An array index is the decimal numeral,
  without a sign or a leading zero, of a number up to \<open>2^32 - 2\<close>.
\<close>

definition is_digit :: "char \<Rightarrow> bool" where
  "is_digit c \<longleftrightarrow> c \<in> set ''0123456789''"

definition digit_value :: "char \<Rightarrow> nat" where
  "digit_value c = (case map_of (zip ''0123456789'' [0, 1, 2, 3, 4, 5, 6, 7, 8, 9]) c of
                      None \<Rightarrow> 0 | Some d \<Rightarrow> d)"

definition index_of :: "string \<Rightarrow> nat" where
  "index_of k = foldl (\<lambda>n c. 10 * n + digit_value c) 0 k"

definition is_array_index :: "string \<Rightarrow> bool" where
  "is_array_index k \<longleftrightarrow>
     k \<noteq> [] \<and> list_all is_digit k \<and> (k = ''0'' \<or> hd k \<noteq> CHR ''0'') \<and>
     index_of k \<le> 4294967294"

text \<open>A new array index goes to its place among the array indices.\<close>

fun insert_index :: "string \<Rightarrow> 'v \<Rightarrow> (string \<times> 'v) list \<Rightarrow> (string \<times> 'v) list" where
  "insert_index k v [] = [(k, v)]"
| "insert_index k v (e # rest) =
     (if is_array_index (fst e) \<and> index_of (fst e) < index_of k
      then e # insert_index k v rest
      else (k, v) # e # rest)"

text \<open>Creating a property that the object does not have.\<close>

definition add_property :: "string \<Rightarrow> 'v \<Rightarrow> (string \<times> 'v) list \<Rightarrow> (string \<times> 'v) list" where
  "add_property k v obj = (if is_array_index k then insert_index k v obj else obj @ [(k, v)])"

text \<open>
  Defining a property, as \<open>Object.fromEntries\<close> and \<open>JSON.parse\<close> do: an own property
  keeps its place and takes the new value, another one is created.
\<close>

definition define_property :: "string \<Rightarrow> 'v \<Rightarrow> (string \<times> 'v) list \<Rightarrow> (string \<times> 'v) list" where
  "define_property k v obj =
     (if k \<in> set (map fst obj) then AList.update k v obj else add_property k v obj)"

text \<open>
  The assignment \<open>obj[k] = v\<close> of an object \<open>v\<close> to an object whose prototype is
  \<open>Object.prototype\<close>. It differs from defining for the key \<open>__proto__\<close>: unless the
  object has an own property of that name, the assignment runs the setter of
  \<open>Object.prototype\<close>, which replaces the prototype and creates no property.
\<close>

definition assign_property :: "string \<Rightarrow> 'v \<Rightarrow> (string \<times> 'v) list \<Rightarrow> (string \<times> 'v) list" where
  "assign_property k v obj =
     (if k \<in> set (map fst obj) then AList.update k v obj
      else if k = ''__proto__'' then obj
      else add_property k v obj)"

definition fromEntries :: "(string \<times> 'v) list \<Rightarrow> (string \<times> 'v) list" where
  "fromEntries kvs = fold (\<lambda>kv obj. define_property (fst kv) (snd kv) obj) kvs []"

text \<open>
  The lists that are objects: building an object from the entries gives the list back.
\<close>

definition js_object :: "(string \<times> 'v) list \<Rightarrow> bool" where
  "js_object obj \<longleftrightarrow> fromEntries obj = obj"

text \<open>
  Reading \<open>obj[k] || null\<close> from an object whose prototype is \<open>Object.prototype\<close> and
  whose own values are objects. A key that is not an own property is looked up in the
  prototype; of its property names, \<open>constructor\<close> and \<open>__proto__\<close> are the two that a
  lower-cased key can be, and both hold a truthy value that is not an account.
\<close>

datatype lookup = NotFound | Found CachedAccountData | Inherited

definition get_property :: "(string \<times> CachedAccountData) list \<Rightarrow> string \<Rightarrow> lookup" where
  "get_property obj k =
     (case map_of obj k of
        Some a \<Rightarrow> Found a
      | None \<Rightarrow> if k = ''constructor'' \<or> k = ''__proto__'' then Inherited else NotFound)"

subsection \<open>JavaScript numbers\<close>

text \<open>
  The scores are JavaScript numbers, computed in IEEE double arithmetic. The model takes
  the numbers from the platform: a linearly ordered type, the number of an integer, and
  the rounded sum, difference and quotient. Nothing is assumed of them here, so every
  statement holds of the doubles as of any other arithmetic. The values that occur are
  computed from integers and non-zero constants, and \<open>NaN\<close> is not among them.
  \<open>Math.max\<close> of two such numbers is the greater one.
\<close>

record 'f arith =
  number :: "int \<Rightarrow> 'f"
  fadd :: "'f \<Rightarrow> 'f \<Rightarrow> 'f"
  fsub :: "'f \<Rightarrow> 'f \<Rightarrow> 'f"
  fdiv :: "'f \<Rightarrow> 'f \<Rightarrow> 'f"

subsection \<open>The platform: JSON and \<open>sessionStorage\<close>\<close>

text \<open>
  \<open>JSON.stringify\<close>, \<open>Blob\<close> and \<open>sessionStorage\<close> belong to the browser. The model takes
  from it the byte length of the JSON text of an account, of a quoted key and of the
  metadata object, whether \<open>JSON.stringify\<close> succeeds on a store, and the largest value
  \<open>setItem\<close> accepts before it throws \<open>QuotaExceededError\<close>.
\<close>

record platform =
  account_bytes :: "CachedAccountData \<Rightarrow> nat"
  key_bytes :: "string \<Rightarrow> nat"
  metadata_bytes :: "globalMetadata \<Rightarrow> nat"
  serializable :: "MaximizedCacheData \<Rightarrow> bool"
  quota :: nat

text \<open>
  The text stored under \<open>CACHE_KEY\<close> is either the JSON of a store, with the entries
  of \<open>a\<close> written in the order of the list, or text on which \<open>decompressData\<close> throws.
  The text under \<open>CACHE_EXPIRY_KEY\<close> is a decimal number.
\<close>

datatype stored = Json MaximizedCacheData | Malformed

record session =
  browser :: bool
  cache_item :: "stored option"
  expiry_item :: "int option"

datatype put_error = SerializationError | QuotaExceededError

text \<open>One entry \<open>"key":{\<dots>}\<close> of the \<open>a\<close> object.\<close>

definition entry_bytes :: "platform \<Rightarrow> string \<times> CachedAccountData \<Rightarrow> nat" where
  "entry_bytes P e = key_bytes P (fst e) + 1 + account_bytes P (snd e)"

text \<open>
  The size of \<open>compressData(data)\<close>, the text \<open>{"a":{\<dots>},"g":{\<dots>}}\<close>: thirteen bytes of
  punctuation and field names, the entries, the commas between them, the metadata.
\<close>

definition compressed_size :: "platform \<Rightarrow> MaximizedCacheData \<Rightarrow> nat" where
  "compressed_size P d =
     13 + sum_list (map (entry_bytes P) (accounts d)) + (length (accounts d) - 1) +
     metadata_bytes P (globalMetadata d)"

definition compressData :: "platform \<Rightarrow> MaximizedCacheData \<Rightarrow> put_error + stored" where
  "compressData P d = (if serializable P d then Inr (Json d) else Inl SerializationError)"

text \<open>
  \<open>decompressData\<close> on the JSON of a store: \<open>JSON.parse\<close> defines the properties of \<open>a\<close>
  in the order of the text.
\<close>

definition decompressData :: "MaximizedCacheData \<Rightarrow> MaximizedCacheData" where
  "decompressData d = d\<lparr>accounts := fromEntries (accounts d)\<rparr>"

definition blob_size :: "platform \<Rightarrow> stored \<Rightarrow> nat" where
  "blob_size P v = (case v of Json d \<Rightarrow> compressed_size P d | Malformed \<Rightarrow> 0)"

definition setItem_cache :: "platform \<Rightarrow> stored \<Rightarrow> session \<Rightarrow> put_error + session" where
  "setItem_cache P v st =
     (if blob_size P v > quota P then Inl QuotaExceededError
      else Inr (st\<lparr>cache_item := Some v\<rparr>))"

definition setItem_expiry :: "platform \<Rightarrow> int \<Rightarrow> session \<Rightarrow> put_error + session" where
  "setItem_expiry P expiry st =
     (if length (string_of_nat (nat expiry)) > quota P then Inl QuotaExceededError
      else Inr (st\<lparr>expiry_item := Some expiry\<rparr>))"

text \<open>\<open>toLowerCase\<close> on the ASCII letters.\<close>

definition lower_char :: "char \<Rightarrow> char" where
  "lower_char c =
     (case map_of (zip ''ABCDEFGHIJKLMNOPQRSTUVWXYZ'' ''abcdefghijklmnopqrstuvwxyz'') c of
        None \<Rightarrow> c
      | Some l \<Rightarrow> l)"

definition toLowerCase :: "string \<Rightarrow> string" where
  "toLowerCase str = map lower_char str"

subsection \<open>Reading and clearing\<close>

definition clear :: "session \<Rightarrow> session" where
  "clear st = (if \<not> browser st then st else st\<lparr>cache_item := None, expiry_item := None\<rparr>)"

definition getAllData :: "int \<Rightarrow> session \<Rightarrow> MaximizedCacheData option \<times> session" where
  "getAllData now st =
     (if \<not> browser st then (None, st)
      else
        (case expiry_item st of
           None \<Rightarrow> (None, clear st)
         | Some expiry \<Rightarrow>
             if now > expiry then (None, clear st)
             else
               (case cache_item st of
                  None \<Rightarrow> (None, st)
                | Some Malformed \<Rightarrow> (None, clear st)
                | Some (Json d) \<Rightarrow> (Some (decompressData d), st))))"

definition getAccountData :: "int \<Rightarrow> string \<Rightarrow> session \<Rightarrow> lookup \<times> session" where
  "getAccountData now username st =
     (case getAllData now st of
        (None, st') \<Rightarrow> (NotFound, st')
      | (Some allData, st') \<Rightarrow> (get_property (accounts allData) (toLowerCase username), st'))"

subsection \<open>Scoring and eviction\<close>

text \<open>
  \<open>getRecencyScore\<close> reads \<open>Date.now()\<close> at every call. A call of
  \<open>performIntelligentCleanup\<close> is synchronous, and as everywhere in this model the clock
  moves only in \<open>sleep\<close>: all the reads of one call give \<open>now\<close>. The difference
  \<open>now - collectionDate\<close> of two whole numbers of milliseconds is exact.
\<close>

definition getRecencyScore :: "'f::linorder arith \<Rightarrow> int \<Rightarrow> int \<Rightarrow> 'f" where
  "getRecencyScore A now collectionTime =
     (let hoursAgo = fdiv A (number A (now - collectionTime)) (number A (1000 * 60 * 60))
      in max (number A 0) (fsub A (number A 1) (fdiv A hoursAgo (number A 24))))"

definition calculateAccountCacheScore :: "'f::linorder arith \<Rightarrow> int \<Rightarrow> CachedAccountData \<Rightarrow> 'f" where
  "calculateAccountCacheScore A now accountData =
     (let recencyScore = getRecencyScore A now (cm_collectionTime accountData);
          dataQualityScore = fdiv A (number A (int (length (cached_tweets accountData))))
                               (number A 1000);
          timeSpanScore = fdiv A (number A (cm_timeSpanDays accountData)) (number A 365);
          engagementScore = fdiv A (number A (stats_totalEngagement accountData))
                              (number A 10000)
      in fadd A (fadd A (fadd A recencyScore dataQualityScore) timeSpanScore) engagementScore)"

text \<open>
  \<open>Math.ceil(accounts.length * 0.7)\<close>. The product is computed in doubles; the length
  of an array is below \<open>2^32\<close>, the rounding error of the product is then below
  \<open>10^-6\<close>, and its ceiling is the ceiling of the exact product.
\<close>

definition keepCount :: "nat \<Rightarrow> nat" where
  "keepCount n = nat \<lceil>rat_of_nat n * (7 / 10)\<rceil>"

text \<open>
  \<open>Array.prototype.sort\<close> is stable: an element moves behind another one only when the
  comparison function puts it there. The insertion sort below is the stable sort for
  the relation "\<open>x\<close> sorts after \<open>y\<close>".
\<close>

fun insert_by :: "('a \<Rightarrow> 'a \<Rightarrow> bool) \<Rightarrow> 'a \<Rightarrow> 'a list \<Rightarrow> 'a list" where
  "insert_by after x [] = [x]"
| "insert_by after x (y # ys) =
     (if after x y then y # insert_by after x ys else x # y # ys)"

definition sort_by :: "('a \<Rightarrow> 'a \<Rightarrow> bool) \<Rightarrow> 'a list \<Rightarrow> 'a list" where
  "sort_by after xs = foldr (insert_by after) xs []"

text \<open>
  The comparison function \<open>(a, b) => scoreB - scoreA\<close>: \<open>a\<close> sorts after \<open>b\<close> when the
  difference is positive.
\<close>

definition sorts_after ::
  "'f::linorder arith \<Rightarrow> int \<Rightarrow> string \<times> CachedAccountData \<Rightarrow> string \<times> CachedAccountData \<Rightarrow> bool"
where
  "sorts_after A now a b \<longleftrightarrow>
     number A 0 < fsub A (calculateAccountCacheScore A now (snd b))
                         (calculateAccountCacheScore A now (snd a))"

definition performIntelligentCleanup ::
  "'f::linorder arith \<Rightarrow> int \<Rightarrow> MaximizedCacheData \<Rightarrow> MaximizedCacheData"
where
  "performIntelligentCleanup A now cacheData =
     (let entries = accounts cacheData;
          sorted_entries = sort_by (sorts_after A now) entries;
          keptAccounts = take (keepCount (length sorted_entries)) sorted_entries
      in \<lparr>accounts = fromEntries keptAccounts,
          globalMetadata = (globalMetadata cacheData)
            \<lparr>lastUpdated := now,
             totalAccounts := length keptAccounts,
             totalTweets := sum_list (map (\<lambda>e. length (cached_tweets (snd e))) keptAccounts)\<rparr>\<rparr>)"

subsection \<open>Writing\<close>

definition fresh_cache :: "int \<Rightarrow> MaximizedCacheData" where
  "fresh_cache now =
     \<lparr>accounts = [],
      globalMetadata =
        \<lparr>lastUpdated = now, version = ''v2_maximum_collection'', totalAccounts = 0,
         totalTweets = 0, cachingStrategy = ''maximum_unlimited_historical''\<rparr>\<rparr>"

text \<open>
  The store with the account written into it and the counters recomputed, before its
  size is looked at.
\<close>

definition updated_cache ::
  "int \<Rightarrow> string \<Rightarrow> CachedAccountData \<Rightarrow> MaximizedCacheData option \<Rightarrow> MaximizedCacheData"
where
  "updated_cache now username accountData existing =
     (let cacheData = (case existing of Some d \<Rightarrow> d | None \<Rightarrow> fresh_cache now);
          accounts' = assign_property (toLowerCase username) accountData (accounts cacheData)
      in \<lparr>accounts = accounts',
          globalMetadata = (globalMetadata cacheData)
            \<lparr>lastUpdated := now,
             totalAccounts := length accounts',
             totalTweets := sum_list (map (\<lambda>e. length (cached_tweets (snd e))) accounts')\<rparr>\<rparr>)"

text \<open>
  The \<open>try\<close> block of \<open>setAccountData\<close> in a browser: the outcome and the storage as
  it is when the block ends or throws. The clock is read as \<open>now\<close> throughout.
\<close>

definition put_try ::
  "'f::linorder arith \<Rightarrow> platform \<Rightarrow> int \<Rightarrow> string \<Rightarrow> CachedAccountData \<Rightarrow> session \<Rightarrow>
     (put_error + unit) \<times> session"
where
  "put_try A P now username accountData st =
     (let got = getAllData now st;
          st1 = snd got;
          cacheData = updated_cache now username accountData (fst got)
      in case compressData P cacheData of
           Inl e \<Rightarrow> (Inl e, st1)
         | Inr compressedData \<Rightarrow>
             (let dataSize = blob_size P compressedData;
                  cacheData' = (if dataSize > MAX_STORAGE_SIZE
                                then performIntelligentCleanup A now cacheData else cacheData)
              in case compressData P cacheData' of
                   Inl e \<Rightarrow> (Inl e, st1)
                 | Inr finalCompressed \<Rightarrow>
                     (case setItem_cache P finalCompressed st1 of
                        Inl e \<Rightarrow> (Inl e, st1)
                      | Inr st2 \<Rightarrow>
                          (case setItem_expiry P (now + CACHE_DURATION) st2 of
                             Inl e \<Rightarrow> (Inl e, st2)
                           | Inr st3 \<Rightarrow> (Inr (), st3)))))"

definition setAccountData ::
  "'f::linorder arith \<Rightarrow> platform \<Rightarrow> int \<Rightarrow> string \<Rightarrow> CachedAccountData \<Rightarrow> session \<Rightarrow> session"
where
  "setAccountData A P now username accountData st =
     (if \<not> browser st then st
      else
        (case put_try A P now username accountData st of
           (Inr u, st') \<Rightarrow> st'
         | (Inl error, st') \<Rightarrow> clear st'))"


section \<open>Notions used in the statements\<close>

text \<open>
  The error classes of the retry wrapper: the codes it refuses to retry, and the errors
  that are neither those nor a rate limit.
\<close>

definition fatal :: "api_error \<Rightarrow> bool" where
  "fatal e \<longleftrightarrow> code e = Some 401 \<or> code e = Some 403 \<or> code e = Some 404"

definition transient :: "api_error \<Rightarrow> bool" where
  "transient e \<longleftrightarrow>
     code e \<noteq> Some 429 \<and> code e \<noteq> Some 401 \<and> code e \<noteq> Some 403 \<and> code e \<noteq> Some 404"

text \<open>
  The specification's wording for the error raised on exhaustion, "annotated with attempt
  count and operation name", read as: both occur in the error's message.
\<close>

definition spec_annotated_with :: "string \<Rightarrow> nat \<Rightarrow> api_error \<Rightarrow> bool" where
  "spec_annotated_with operationName attempts e \<longleftrightarrow>
     sublist operationName (message e) \<and> sublist (string_of_nat attempts) (message e)"

subsection \<open>Upstream behaviours used as concrete inputs\<close>

definition two_then_401 :: "string \<Rightarrow> api" where
  "two_then_401 userId k token =
     (if k = 0
      then Inr \<lparr>data = Some [\<lparr>tweet_id = ''a'', created_at = 5000, media_keys = None\<rparr>,
                              \<lparr>tweet_id = ''b'', created_at = 4000, media_keys = None\<rparr>],
                includes_media = None, next_token = Some ''p2''\<rparr>
      else Inl \<lparr>code = Some 401, message = ''Unauthorized''\<rparr>)"

definition always_401 :: "string \<Rightarrow> api" where
  "always_401 userId k token = Inl \<lparr>code = Some 401, message = ''Unauthorized''\<rparr>"

definition always_429 :: "string \<Rightarrow> api" where
  "always_429 userId k token = Inl \<lparr>code = Some 429, message = ''Too Many Requests''\<rparr>"

definition sample_tweet :: tweet where
  "sample_tweet = \<lparr>tweet_id = ''a'', created_at = 5000, media_keys = None\<rparr>"

text \<open>Three full pages of 100 records, then a last page of 50.\<close>

definition pages_of_100 :: api where
  "pages_of_100 k token =
     (if k < 3
      then Inr \<lparr>data = Some (replicate 100 sample_tweet), includes_media = None,
                next_token = Some ''more''\<rparr>
      else Inr \<lparr>data = Some (replicate 50 sample_tweet), includes_media = None,
                next_token = None\<rparr>)"

definition target_250 :: limits where
  "target_250 = source_limits\<lparr>targetTweetCount := 250\<rparr>"

subsection \<open>Notions for the eviction\<close>

text \<open>
  The property of the doubles that the comparison function relies on: a difference of
  finite numbers is positive exactly when its first operand is the greater one.
\<close>

definition sign_exact :: "'f::linorder arith \<Rightarrow> bool" where
  "sign_exact A \<longleftrightarrow> (\<forall>p q. number A 0 < fsub A p q \<longleftrightarrow> q < p)"

text \<open>The entries of a store in the order the eviction ranks them.\<close>

definition ranked ::
  "'f::linorder arith \<Rightarrow> int \<Rightarrow> MaximizedCacheData \<Rightarrow> (string \<times> CachedAccountData) list"
where
  "ranked A now d = sort_by (sorts_after A now) (accounts d)"

subsection \<open>Platforms and stores used as concrete inputs\<close>

text \<open>The exact arithmetic of the rationals, for computing on concrete inputs.\<close>

definition exact_arith :: "rat arith" where
  "exact_arith = \<lparr>number = of_int, fadd = (+), fsub = (-), fdiv = (/)\<rparr>"

text \<open>
  A platform on which an account takes 1000 bytes and 300 more for each tweet, a quoted
  key two bytes more than the key, and the metadata 120 bytes; \<open>setItem\<close> accepts up to
  100 MB. The tight platform accepts 5000 bytes.
\<close>

definition demo_platform :: platform where
  "demo_platform =
     \<lparr>account_bytes = (\<lambda>a. 300 * length (cached_tweets a) + 1000),
      key_bytes = (\<lambda>k. length k + 2),
      metadata_bytes = (\<lambda>g. 120),
      serializable = (\<lambda>d. True),
      quota = 100000000\<rparr>"

definition tight_platform :: platform where
  "tight_platform = demo_platform\<lparr>quota := 5000\<rparr>"

definition demo_account :: "nat \<Rightarrow> int \<Rightarrow> int \<Rightarrow> CachedAccountData" where
  "demo_account n collected engagement =
     \<lparr>cached_tweets = replicate n \<lparr>ct_id = ''1'', ct_text = ''gm''\<rparr>,
      stats_totalEngagement = engagement, cm_timeSpanDays = 30, cm_collectionTime = collected\<rparr>"

definition demo_store :: "(string \<times> CachedAccountData) list \<Rightarrow> MaximizedCacheData" where
  "demo_store entries =
     \<lparr>accounts = entries,
      globalMetadata =
        \<lparr>lastUpdated = 0, version = ''v2_maximum_collection'', totalAccounts = length entries,
         totalTweets = sum_list (map (\<lambda>e. length (cached_tweets (snd e))) entries),
         cachingStrategy = ''maximum_unlimited_historical''\<rparr>\<rparr>"

definition demo_session :: "(string \<times> CachedAccountData) list \<Rightarrow> session" where
  "demo_session entries =
     \<lparr>browser = True, cache_item = Some (Json (demo_store entries)), expiry_item = Some 14400000\<rparr>"

text \<open>A session whose cached text does not parse.\<close>

definition corrupt_session :: session where
  "corrupt_session = \<lparr>browser = True, cache_item = Some Malformed, expiry_item = Some 14400000\<rparr>"

section \<open>Verified properties\<close>

subsection \<open>The throttle\<close>

lemma throttle_inv_init: "0 < t0 \<Longrightarrow> throttle_inv (init_world t0)"
  by (simp add: throttle_inv_def init_world_def)

lemma throttle_inv_step:
  assumes "throttle_inv w"
  shows "throttle_inv (throttleRequest (w\<lparr>clock := clock w + int idle\<rparr>))"
  using assms
  unfolding throttle_inv_def throttleRequest_def Let_def sleep_def fifteenMinutes_def
    MAX_REQUESTS_PER_15_MINUTES_def
  by (auto simp: list_all_iff filter_empty_conv split: if_splits)

lemma throttle_inv_acquire_all: "throttle_inv w \<Longrightarrow> throttle_inv (acquire_all gaps w)"
  by (induction gaps arbitrary: w) (simp_all add: throttle_inv_step)

lemma throttle_inv_window:
  assumes "throttle_inv w"
  shows "completed_within (windowStartTime w) (windowStartTime w + fifteenMinutes) w =
           requestCount w"
proof -
  have "filter (\<lambda>t. windowStartTime w \<le> t \<and> t < windowStartTime w + fifteenMinutes)
          (completions w) =
        filter (\<lambda>t. windowStartTime w \<le> t) (completions w)"
    using assms
    by (intro filter_cong refl) (auto simp: throttle_inv_def list_all_iff split: if_splits)
  then show ?thesis using assms by (simp add: completed_within_def throttle_inv_def)
qed

lemma filter_length_mono:
  "(\<And>x. x \<in> set xs \<Longrightarrow> P x \<Longrightarrow> Q x) \<Longrightarrow> length (filter P xs) \<le> length (filter Q xs)"
  by (induction xs) auto

lemma filter_length_split:
  "(\<And>x. x \<in> set xs \<Longrightarrow> P x \<Longrightarrow> Q x \<or> R x) \<Longrightarrow>
   length (filter P xs) \<le> length (filter Q xs) + length (filter R xs)"
  by (induction xs) auto

lemma filter_length_strict:
  "(x::int) \<in> set xs \<Longrightarrow> length (filter (\<lambda>t. x < t) xs) < length (filter (\<lambda>t. x \<le> t) xs)"
proof (induction xs)
  case Nil
  then show ?case by simp
next
  case (Cons a xs)
  have m: "length (filter (\<lambda>t. x < t) xs) \<le> length (filter (\<lambda>t. x \<le> t) xs)"
    by (rule filter_length_mono) simp
  show ?case
  proof (cases "a = x")
    case True
    then show ?thesis using m by simp
  next
    case False
    then have "x \<in> set xs" using Cons.prems by simp
    from Cons.IH[OF this] False show ?thesis by auto
  qed
qed

lemma throttle_step_shape:
  assumes "throttle_inv w"
  shows "completions (throttleRequest (w\<lparr>clock := clock w + int idle\<rparr>)) =
           completions w @ [clock (throttleRequest (w\<lparr>clock := clock w + int idle\<rparr>))] \<and>
         ((windowStartTime (throttleRequest (w\<lparr>clock := clock w + int idle\<rparr>)) = windowStartTime w \<and>
           windowStartTime w \<noteq> 0) \<or>
          (windowStartTime (throttleRequest (w\<lparr>clock := clock w + int idle\<rparr>)) =
             clock (throttleRequest (w\<lparr>clock := clock w + int idle\<rparr>)) \<and>
           (windowStartTime w = 0 \<or>
            windowStartTime w + fifteenMinutes \<le> clock (throttleRequest (w\<lparr>clock := clock w + int idle\<rparr>))) \<and>
           (\<forall>t\<in>set (completions w). t < clock (throttleRequest (w\<lparr>clock := clock w + int idle\<rparr>)))))"
  using assms
  unfolding throttle_inv_def throttleRequest_def Let_def sleep_def fifteenMinutes_def
    MAX_REQUESTS_PER_15_MINUTES_def
  by (auto simp: list_all_iff split: if_splits)


lemma rolling_step:
  assumes inv: "throttle_inv w" and edge: "window_edge_inv w"
      and roll: "\<And>lo. completed_within lo (lo + fifteenMinutes) w \<le> 2 * MAX_REQUESTS_PER_15_MINUTES - 1"
  shows "window_edge_inv (throttleRequest (w\<lparr>clock := clock w + int idle\<rparr>)) \<and>
         (\<forall>lo. completed_within lo (lo + fifteenMinutes)
                 (throttleRequest (w\<lparr>clock := clock w + int idle\<rparr>))
               \<le> 2 * MAX_REQUESTS_PER_15_MINUTES - 1)"
proof -
  define w' where "w' = throttleRequest (w\<lparr>clock := clock w + int idle\<rparr>)"
  define cs where "cs = completions w"
  define t' where "t' = clock w'"
  define ws where "ws = windowStartTime w"
  define ws' where "ws' = windowStartTime w'"
  have inv': "throttle_inv w'" unfolding w'_def by (rule throttle_inv_step[OF inv])
  have cs': "completions w' = cs @ [t']"
    using throttle_step_shape[OF inv, of idle] by (simp add: w'_def cs_def t'_def)
  have shape: "(ws' = ws \<and> ws \<noteq> 0) \<or>
               (ws' = t' \<and> (ws = 0 \<or> ws + fifteenMinutes \<le> t') \<and> (\<forall>t\<in>set cs. t < t'))"
    using throttle_step_shape[OF inv, of idle] by (simp add: w'_def cs_def t'_def ws_def ws'_def)
  have le': "ws' \<le> t'" using inv' by (simp add: throttle_inv_def ws'_def t'_def)
  have cnt': "length (filter (\<lambda>t. ws' \<le> t) (cs @ [t'])) \<le> MAX_REQUESTS_PER_15_MINUTES"
    using inv' by (simp add: throttle_inv_def ws'_def cs')
  have cnt: "length (filter (\<lambda>t. ws \<le> t) cs) \<le> MAX_REQUESTS_PER_15_MINUTES"
    using inv by (simp add: throttle_inv_def ws_def cs_def)
  have empty: "ws = 0 \<Longrightarrow> cs = []"
    using inv by (simp add: throttle_inv_def ws_def cs_def split: if_splits)
  have e3: "length (filter (\<lambda>t. ws - fifteenMinutes < t \<and> t < ws) cs) \<le> MAX_REQUESTS_PER_15_MINUTES - 1"
    and e4: "ws = 0 \<or> ws \<in> set cs"
    using edge by (simp_all add: window_edge_inv_def ws_def cs_def)
  have old: "\<And>lo. length (filter (\<lambda>t. lo \<le> t \<and> t < lo + fifteenMinutes) cs)
                 \<le> 2 * MAX_REQUESTS_PER_15_MINUTES - 1"
    using roll by (simp add: completed_within_def cs_def)
  have M: "MAX_REQUESTS_PER_15_MINUTES = 50" by (simp add: MAX_REQUESTS_PER_15_MINUTES_def)
  \<comment> \<open>the edge of the window\<close>
  have e3': "length (filter (\<lambda>t. ws' - fifteenMinutes < t \<and> t < ws') (cs @ [t']))
               \<le> MAX_REQUESTS_PER_15_MINUTES - 1"
  proof -
    from shape show ?thesis
    proof
      assume "ws' = ws \<and> ws \<noteq> 0"
      then show ?thesis using e3 le' by simp
    next
      assume n: "ws' = t' \<and> (ws = 0 \<or> ws + fifteenMinutes \<le> t') \<and> (\<forall>t\<in>set cs. t < t')"
      show ?thesis
      proof (cases "ws = 0")
        case True
        then show ?thesis using empty n by simp
      next
        case False
        then have in_cs: "ws \<in> set cs" and far: "ws + fifteenMinutes \<le> t'" using e4 n by auto
        have "length (filter (\<lambda>t. t' - fifteenMinutes < t \<and> t < t') cs)
                \<le> length (filter (\<lambda>t. ws < t) cs)"
          using far by (intro filter_length_mono) auto
        also have "\<dots> < length (filter (\<lambda>t. ws \<le> t) cs)"
          by (rule filter_length_strict[OF in_cs])
        finally have "length (filter (\<lambda>t. t' - fifteenMinutes < t \<and> t < t') cs)
                        \<le> MAX_REQUESTS_PER_15_MINUTES - 1"
          using cnt by simp
        then show ?thesis using n by simp
      qed
    qed
  qed
  have e4': "ws' = 0 \<or> ws' \<in> set (cs @ [t'])"
    using shape e4 by auto
  \<comment> \<open>every rolling interval\<close>
  have roll': "length (filter (\<lambda>t. lo \<le> t \<and> t < lo + fifteenMinutes) (cs @ [t']))
                 \<le> 2 * MAX_REQUESTS_PER_15_MINUTES - 1" for lo
  proof (cases "lo \<le> t' \<and> t' < lo + fifteenMinutes")
    case False
    then show ?thesis using old[of lo] by auto
  next
    case True
    have "length (filter (\<lambda>t. lo \<le> t \<and> t < lo + fifteenMinutes) (cs @ [t']))
            \<le> length (filter (\<lambda>t. ws' - fifteenMinutes < t \<and> t < ws') (cs @ [t'])) +
               length (filter (\<lambda>t. ws' \<le> t) (cs @ [t']))"
      using True le' by (intro filter_length_split) auto
    also have "\<dots> \<le> (MAX_REQUESTS_PER_15_MINUTES - 1) + MAX_REQUESTS_PER_15_MINUTES"
      using e3' cnt' by (rule add_mono)
    finally show ?thesis by (simp add: M)
  qed
  show ?thesis
    using e3' e4' roll'
    by (simp add: window_edge_inv_def completed_within_def w'_def[symmetric] cs' ws'_def)
qed

lemma rolling_acquire_all:
  assumes "throttle_inv w" "window_edge_inv w"
      and "\<forall>lo. completed_within lo (lo + fifteenMinutes) w \<le> 2 * MAX_REQUESTS_PER_15_MINUTES - 1"
  shows "\<forall>lo. completed_within lo (lo + fifteenMinutes) (acquire_all gaps w)
              \<le> 2 * MAX_REQUESTS_PER_15_MINUTES - 1"
  using assms
proof (induction gaps arbitrary: w)
  case Nil
  then show ?case by simp
next
  case (Cons idle gaps)
  have s: "window_edge_inv (throttleRequest (w\<lparr>clock := clock w + int idle\<rparr>)) \<and>
         (\<forall>lo. completed_within lo (lo + fifteenMinutes)
                 (throttleRequest (w\<lparr>clock := clock w + int idle\<rparr>))
               \<le> 2 * MAX_REQUESTS_PER_15_MINUTES - 1)"
    using Cons.prems by (intro rolling_step) simp_all
  show ?case
    using Cons.IH[OF throttle_inv_step[OF Cons.prems(1)] conjunct1[OF s] conjunct2[OF s]]
    by simp
qed

text \<open>
  Claim C2, as the code has it. The throttle counts per fixed window, and a window
  begins no sooner than 15 minutes after the one before. After any sequence of
  \<open>acquire()\<close> calls, started with a positive clock, every rolling interval of 15
  minutes, from \<open>lo\<close> up to but not including \<open>lo + 15 min\<close>, holds at most
  \<open>2 * 50 - 1 = 99\<close> completed acquisitions; and the throttle's current window, the 15
  minutes from \<open>windowStartTime\<close> on, holds \<open>requestCount\<close> of them, at most 50.
\<close>

theorem rolling_window_within_twice_quota:
  assumes "0 < t0"
  shows "completed_within lo (lo + fifteenMinutes) (acquire_all gaps (init_world t0))
           \<le> 2 * MAX_REQUESTS_PER_15_MINUTES - 1 \<and>
         completed_within (windowStartTime (acquire_all gaps (init_world t0)))
           (windowStartTime (acquire_all gaps (init_world t0)) + fifteenMinutes)
           (acquire_all gaps (init_world t0)) =
         requestCount (acquire_all gaps (init_world t0)) \<and>
         requestCount (acquire_all gaps (init_world t0)) \<le> MAX_REQUESTS_PER_15_MINUTES"
proof -
  have i: "throttle_inv (init_world t0)" by (rule throttle_inv_init[OF assms])
  have e: "window_edge_inv (init_world t0)"
    by (simp add: window_edge_inv_def init_world_def)
  have r: "\<forall>lo. completed_within lo (lo + fifteenMinutes) (init_world t0)
             \<le> 2 * MAX_REQUESTS_PER_15_MINUTES - 1"
    by (simp add: completed_within_def init_world_def)
  have "throttle_inv (acquire_all gaps (init_world t0))"
    by (rule throttle_inv_acquire_all[OF i])
  then show ?thesis
    using rolling_acquire_all[OF i e r, of gaps] throttle_inv_window
    by (simp add: throttle_inv_def)
qed

theorem rolling_window_within_twice_quota_witness:
  "(0::int) < 1000000 \<and>
   completed_within 1000000 (1000000 + fifteenMinutes)
     (acquire_all [0, 5, 0] (init_world 1000000)) = 3 \<and>
   requestCount (acquire_all [0, 5, 0] (init_world 1000000)) = 3"
  using rolling_window_within_twice_quota[of 1000000 1000000 "[0, 5, 0]"]
  by (simp add: init_world_def throttleRequest_def Let_def fifteenMinutes_def
        MAX_REQUESTS_PER_15_MINUTES_def completed_within_def)

lemma throttle_quiet:
  "windowStartTime w \<noteq> 0 \<Longrightarrow> clock w - windowStartTime w < fifteenMinutes \<Longrightarrow>
   requestCount w < MAX_REQUESTS_PER_15_MINUTES \<Longrightarrow>
   throttleRequest w =
     w\<lparr>requestCount := requestCount w + 1, completions := completions w @ [clock w]\<rparr>"
  by (simp add: throttleRequest_def Let_def)

text \<open>Calls that follow each other at once, inside the window and inside the quota.\<close>

lemma burst:
  "windowStartTime w \<noteq> 0 \<Longrightarrow> clock w - windowStartTime w < fifteenMinutes \<Longrightarrow>
   requestCount w + n \<le> MAX_REQUESTS_PER_15_MINUTES \<Longrightarrow>
   acquire_all (replicate n 0) w =
     w\<lparr>requestCount := requestCount w + n,
       completions := completions w @ replicate n (clock w)\<rparr>"
proof (induction n arbitrary: w)
  case 0
  then show ?case by simp
next
  case (Suc n)
  let ?w1 = "throttleRequest w"
  have s: "?w1 = w\<lparr>requestCount := requestCount w + 1,
                    completions := completions w @ [clock w]\<rparr>"
    using Suc.prems by (intro throttle_quiet) simp_all
  have "acquire_all (replicate (Suc n) 0) w = acquire_all (replicate n 0) ?w1" by simp
  also have "\<dots> = ?w1\<lparr>requestCount := requestCount ?w1 + n,
                       completions := completions ?w1 @ replicate n (clock ?w1)\<rparr>"
    using Suc.prems by (intro Suc.IH) (simp_all add: s)
  finally show ?case by (simp add: s replicate_app_Cons_same)
qed

lemma acquire_all_append: "acquire_all (xs @ ys) w = acquire_all ys (acquire_all xs w)"
  by (induction xs arbitrary: w) simp_all

text \<open>
  One call, 49 more just before the window ends, and 50 one millisecond later, when
  the window has been reset.
\<close>

lemma burst_across_reset:
  "acquire_all (0 # 899999 # replicate 48 0 @ 1 # replicate 49 0) (init_world 1000000) =
     \<lparr>clock = 1900000, requestCount = 50, windowStartTime = 1900000, calls = 0, sleeps = [],
      completions = 1000000 # 1899999 # replicate 48 1899999 @ 1900000 # replicate 49 1900000\<rparr>"
proof -
  let ?w2 = "\<lparr>clock = 1899999, requestCount = 2, windowStartTime = 1000000, calls = 0,
              sleeps = [], completions = [1000000, 1899999]\<rparr>"
  let ?w3 = "\<lparr>clock = 1899999, requestCount = 50, windowStartTime = 1000000, calls = 0,
              sleeps = [], completions = 1000000 # 1899999 # replicate 48 1899999\<rparr>"
  let ?w4 = "\<lparr>clock = 1900000, requestCount = 1, windowStartTime = 1900000, calls = 0,
              sleeps = [], completions = 1000000 # 1899999 # replicate 48 1899999 @ [1900000]\<rparr>"
  have a: "acquire_all [0, 899999] (init_world 1000000) = ?w2"
    by (simp add: init_world_def throttleRequest_def Let_def fifteenMinutes_def
          MAX_REQUESTS_PER_15_MINUTES_def)
  have b: "acquire_all (replicate 48 0) ?w2 = ?w3"
    by (subst burst) (simp_all add: fifteenMinutes_def MAX_REQUESTS_PER_15_MINUTES_def)
  have c: "acquire_all [1] ?w3 = ?w4"
    by (simp add: throttleRequest_def Let_def fifteenMinutes_def MAX_REQUESTS_PER_15_MINUTES_def)
  have d: "acquire_all (replicate 49 0) ?w4 =
     \<lparr>clock = 1900000, requestCount = 50, windowStartTime = 1900000, calls = 0, sleeps = [],
      completions = 1000000 # 1899999 # replicate 48 1899999 @ 1900000 # replicate 49 1900000\<rparr>"
    by (subst burst) (simp_all add: fifteenMinutes_def MAX_REQUESTS_PER_15_MINUTES_def)
  have "0 # 899999 # replicate 48 0 @ 1 # replicate 49 0 =
        [0, 899999] @ replicate 48 0 @ [1] @ replicate 49 (0::nat)" by simp
  then show ?thesis
    by (simp only: acquire_all_append a b c d)
qed

text \<open>
  Claim C2 as stated bounds every rolling interval of 15 minutes by 50. The interval
  that begins one millisecond before the reset holds 99 completed acquisitions, so the
  bound of 99 is attained.
\<close>

theorem rolling_window_exceeds_quota_counterexample:
  "completed_within 1899999 (1899999 + fifteenMinutes)
     (acquire_all (0 # 899999 # replicate 48 0 @ 1 # replicate 49 0) (init_world 1000000)) = 99 \<and>
   MAX_REQUESTS_PER_15_MINUTES < 99"
  unfolding burst_across_reset
  by (simp add: completed_within_def fifteenMinutes_def MAX_REQUESTS_PER_15_MINUTES_def)

subsection \<open>The retry wrapper\<close>

lemma retry_from_fatal:
  assumes "attempt \<le> maxRetries" "f (calls w) = Inl e" "fatal e"
  shows "retry_from (invoke f) operationName maxRetries attempt lastError w =
           (Inl (Some e), w\<lparr>calls := calls w + 1\<rparr>)"
  using assms by (subst retry_from.simps) (auto simp: invoke_def fatal_def)

lemma retry_from_transient:
  assumes "\<forall>k. transient (errs k)" "attempt \<le> m" "d = m - attempt"
  shows "retry_from (invoke (\<lambda>k. Inl (errs k))) operationName m attempt lastError w =
           (Inl (Some (errs (calls w + (m - attempt)))),
            w\<lparr>clock := clock w + sum_list (map (\<lambda>k. 2000 * int k) [attempt..<m]),
               calls := calls w + (m - attempt + 1),
               sleeps := sleeps w @ map (\<lambda>k. 2000 * int k) [attempt..<m]\<rparr>)"
  using assms
proof (induction d arbitrary: attempt lastError w)
  case 0
  then have "attempt = m" by simp
  with 0 show ?case
    by (subst retry_from.simps) (simp add: invoke_def transient_def)
next
  case (Suc d)
  then have lt: "attempt < m" and d: "d = m - (attempt + 1)" and le: "attempt + 1 \<le> m"
    by simp_all
  let ?w1 = "sleep (2000 * int attempt) (w\<lparr>calls := calls w + 1\<rparr>)"
  have step: "retry_from (invoke (\<lambda>k. Inl (errs k))) operationName m attempt lastError w =
        retry_from (invoke (\<lambda>k. Inl (errs k))) operationName m (attempt + 1)
          (Some (errs (calls w))) ?w1"
    using lt Suc.prems(1) by (subst retry_from.simps) (simp add: invoke_def transient_def Let_def)
  have up: "[attempt..<m] = attempt # [attempt + 1..<m]"
    using lt by (simp add: upt_conv_Cons)
  have m: "Suc (calls w + m - Suc attempt) = calls w + m - attempt" using lt by arith
  show ?case
    unfolding step Suc.IH[OF Suc.prems(1) le d]
    using lt by (simp add: sleep_def up m)
qed

text \<open>
  Claim C7. When the invocation that the wrapper is about to make fails with code 401,
  403 or 404, the wrapper raises exactly that error; the world afterwards differs from
  the world before only in the invocation counter, which has grown by one: the
  operation ran once and nothing slept, however many attempts \<open>maxRetries\<close> allows.
\<close>

theorem fatal_error_invoked_once:
  assumes "0 < maxRetries" "f (calls w) = Inl e" "fatal e"
  shows "retryWithIntelligentBackoff (invoke f) operationName maxRetries w =
           (Inl (Some e), w\<lparr>calls := calls w + 1\<rparr>)"
  unfolding retryWithIntelligentBackoff_def using assms by (intro retry_from_fatal) simp_all

theorem fatal_error_invoked_once_witness:
  "retryWithIntelligentBackoff
     (invoke (\<lambda>k. Inl \<lparr>code = Some 403, message = ''Forbidden''\<rparr> :: api_error + unit))
     ''getUserByUsername(bob)'' 5 (init_world 1000) =
   (Inl (Some \<lparr>code = Some 403, message = ''Forbidden''\<rparr>), (init_world 1000)\<lparr>calls := 1\<rparr>)"
  using fatal_error_invoked_once[of 5 "\<lambda>k. Inl \<lparr>code = Some 403, message = ''Forbidden''\<rparr>"
        "init_world 1000" "\<lparr>code = Some 403, message = ''Forbidden''\<rparr>" "''getUserByUsername(bob)''"]
  by (simp add: fatal_def init_world_def)

text \<open>
  Claim C8, as the code has it. An operation whose every invocation raises a transient
  error is invoked exactly \<open>maxRetries\<close> times; after the \<open>k\<close>-th failure, for each
  \<open>k < maxRetries\<close>, the wrapper sleeps \<open>2000 * k\<close> milliseconds; in the end it raises the
  error of the last invocation, the very value the operation raised (\<open>undefined\<close> when
  \<open>maxRetries = 0\<close>).
\<close>

theorem transient_errors_exhaust_attempts:
  assumes "\<forall>k. transient (errs k)"
  shows "retryWithIntelligentBackoff (invoke (\<lambda>k. Inl (errs k))) operationName maxRetries w =
           (Inl (if maxRetries = 0 then None else Some (errs (calls w + maxRetries - 1))),
            w\<lparr>clock := clock w + sum_list (map (\<lambda>k. 2000 * int k) [1..<maxRetries]),
               calls := calls w + maxRetries,
               sleeps := sleeps w @ map (\<lambda>k. 2000 * int k) [1..<maxRetries]\<rparr>)"
proof (cases "maxRetries = 0")
  case True
  then show ?thesis
    unfolding retryWithIntelligentBackoff_def by (subst retry_from.simps) simp
next
  case False
  then have le: "1 \<le> maxRetries" by simp
  show ?thesis
    unfolding retryWithIntelligentBackoff_def retry_from_transient[OF assms le refl]
    using False by simp
qed

theorem transient_errors_exhaust_attempts_witness:
  "retryWithIntelligentBackoff
     (invoke (\<lambda>k. Inl \<lparr>code = Some 500, message = ''boom''\<rparr> :: api_error + unit))
     ''userTimeline page 1'' 3 (init_world 1000) =
   (Inl (Some \<lparr>code = Some 500, message = ''boom''\<rparr>),
    (init_world 1000)\<lparr>clock := 7000, calls := 3, sleeps := [2000, 4000]\<rparr>)"
  using transient_errors_exhaust_attempts[of "\<lambda>k. \<lparr>code = Some 500, message = ''boom''\<rparr>"
          "''userTimeline page 1''" 3 "init_world 1000"]
  by (simp add: transient_def init_world_def upt_rec)

text \<open>
  Claim C8 as stated has the raised error annotated with the attempt count and the
  operation name. The code writes both to the console and throws \<open>lastError\<close> untouched:
  here the raised error is the operation's own, and its message has neither.
\<close>

theorem exhausted_error_not_annotated_counterexample:
  "fst (retryWithIntelligentBackoff
          (invoke (\<lambda>k. Inl \<lparr>code = Some 500, message = ''boom''\<rparr> :: api_error + unit))
          ''userTimeline page 1'' 2 (init_world 1000)) =
     Inl (Some \<lparr>code = Some 500, message = ''boom''\<rparr>) \<and>
   \<not> spec_annotated_with ''userTimeline page 1'' 2 \<lparr>code = Some 500, message = ''boom''\<rparr>"
  by (simp add: retryWithIntelligentBackoff_def retry_from.simps invoke_def init_world_def
        sleep_def spec_annotated_with_def sublist_Cons_right)

subsection \<open>The collection loop\<close>

lemmas collector_eval =
  page_attempt_def fetch_page_def init_lstate_def init_world_def throttleRequest_def Let_def
  retryWithIntelligentBackoff_def retry_from.simps userTimeline_def invoke_def sleep_def
  truthy_def on_error_def on_response_def loop_condition_def string_of_nat.simps digit_char_def
  fifteenMinutes_def MAX_REQUESTS_PER_15_MINUTES_def source_limits_def

text \<open>A run that stands at the top of the loop body ends as the loop started there ends.\<close>

lemma reaches_loop:
  "reaches cfg upstream start sw \<Longrightarrow>
   collect_loop cfg upstream (fst start) (snd start) = collect_loop cfg upstream (fst sw) (snd sw)"
proof (induction rule: reaches.induct)
  case at_start
  show ?case by simp
next
  case (next_pass s w s' w')
  have "collect_loop cfg upstream s w = collect_loop cfg upstream s' w'"
    by (subst collect_loop.simps) (simp add: next_pass.hyps)
  with next_pass.IH show ?case by simp
qed

lemma collect_loop_break:
  "page_attempt cfg upstream s w = (Break, s', w') \<Longrightarrow>
   collect_loop cfg upstream s w = Some (Break, s', w')"
  by (subst collect_loop.simps) simp

lemma collect_from_break:
  assumes "reaches cfg upstream (s0, w0) (s, w)"
      and "page_attempt cfg upstream s w = (Break, s', w')"
  shows "collect_from cfg upstream username s0 w0 = Some (assemble username s' w', w')"
proof -
  have "collect_loop cfg upstream s0 w0 = Some (Break, s', w')"
    using reaches_loop[OF assms(1)] collect_loop_break[OF assms(2)] by simp
  then show ?thesis by (simp add: collect_from_def outer_catch_def)
qed

lemma page_attempt_fatal:
  assumes "fetch_page upstream s w = (Inl (Some e), w')" "code e \<noteq> Some 429"
  shows "page_attempt cfg upstream s w =
           (Break,
            (if allTweets s \<noteq> []
             then s\<lparr>errors := errors s @
                      [''Page '' @ string_of_nat (pagesProcessed s + 1) @ '': '' @ message e],
                    shouldStop := True\<rparr>
             else s\<lparr>errors := errors s @
                      [''Page '' @ string_of_nat (pagesProcessed s + 1) @ '': '' @ message e]\<rparr>),
            w')"
  using assms by (simp add: page_attempt_def on_error_def Let_def)

lemma page_attempt_target:
  assumes "fetch_page upstream s w = (Inr resp, w')" "data resp = Some page" "page \<noteq> []"
      and "targetTweetCount cfg \<le> length (allTweets s) + length page"
  shows "page_attempt cfg upstream s w =
           (Break,
            s\<lparr>allTweets := allTweets s @ page, consecutiveEmptyPages := 0, shouldStop := True\<rparr>,
            w')"
  using assms by (simp add: page_attempt_def on_response_def Let_def)

lemma assemble_tweets: "map raw (tweets (assemble username s w)) = allTweets s"
  by (simp add: assemble_def Let_def process_tweet_def comp_def)

lemma assemble_length: "length (tweets (assemble username s w)) = length (allTweets s)"
  by (simp add: assemble_def Let_def)

lemma assemble_total: "totalCollected (metadata (assemble username s w)) = length (allTweets s)"
  by (simp add: assemble_def Let_def)

lemma assemble_errors: "meta_errors (metadata (assemble username s w)) = errors s"
  by (simp add: assemble_def Let_def)

lemma on_response_ToCondition:
  "on_response cfg resp s w = (ToCondition, s', w') \<Longrightarrow>
     (allTweets s' = allTweets s \<or> length (allTweets s') < targetTweetCount cfg)"
  by (auto simp: on_response_def Let_def split: if_splits option.splits)

lemma on_error_ToCondition:
  "on_error thr s w = (ToCondition, s', w') \<Longrightarrow> allTweets s' = []"
  by (auto simp: on_error_def Let_def split: if_splits option.splits)

lemma page_attempt_ToCondition:
  "page_attempt cfg upstream s w = (ToCondition, s', w') \<Longrightarrow>
     (allTweets s' = allTweets s \<or> allTweets s' = [] \<or>
      length (allTweets s') < targetTweetCount cfg)"
  unfolding page_attempt_def Let_def
  by (auto split: sum.splits dest: on_response_ToCondition on_error_ToCondition)

lemma reaches_below_target:
  "reaches cfg upstream (init_lstate, w0) sw \<Longrightarrow>
     allTweets (fst sw) = [] \<or> length (allTweets (fst sw)) < targetTweetCount cfg"
proof (induction rule: reaches.induct)
  case at_start
  show ?case by (simp add: init_lstate_def)
next
  case (next_pass s w s' w')
  from page_attempt_ToCondition[OF next_pass.hyps(2)] next_pass.IH
  show ?case by auto
qed

text \<open>
  Claim C1. Take a run of \<open>maximizeUserTweetCollection\<close> that stands at the top of the
  loop body with \<open>N > 0\<close> records collected, and let the fetch of the next page (throttle,
  then the retry wrapper) end by raising an error whose code is not 429. Then the call
  returns a result: its tweets are exactly the \<open>N\<close> collected records, in order, each
  with its media merged in; \<open>totalCollected\<close> is \<open>N\<close>; and \<open>metadata.errors\<close> ends with
  the message recorded for the failed page. The world is left as the failed fetch left
  it: nothing more is fetched.
\<close>

theorem partial_data_survives_fatal_error:
  assumes "reaches source_limits (client userId) (init_lstate, w0) (s, w)"
      and "allTweets s \<noteq> []"
      and "fetch_page (client userId) s w = (Inl (Some e), w')"
      and "code e \<noteq> Some 429"
  shows "\<exists>r. maximizeUserTweetCollection client userId username w0 = Some (r, w') \<and>
             map raw (tweets r) = allTweets s \<and>
             length (tweets r) = length (allTweets s) \<and>
             totalCollected (metadata r) = length (allTweets s) \<and>
             meta_errors (metadata r) =
               errors s @ [''Page '' @ string_of_nat (pagesProcessed s + 1) @ '': '' @ message e]"
proof -
  let ?s' = "s\<lparr>errors := errors s @
                 [''Page '' @ string_of_nat (pagesProcessed s + 1) @ '': '' @ message e],
               shouldStop := True\<rparr>"
  have "page_attempt source_limits (client userId) s w = (Break, ?s', w')"
    using page_attempt_fatal[OF assms(3,4)] assms(2) by simp
  then have "maximizeUserTweetCollection client userId username w0 =
               Some (assemble username ?s' w', w')"
    unfolding maximizeUserTweetCollection_def by (rule collect_from_break[OF assms(1)])
  then show ?thesis
    by (simp add: assemble_tweets assemble_length assemble_total assemble_errors)
qed

theorem partial_data_survives_fatal_error_witness:
  "map_option (\<lambda>rw. (map (tweet_id \<circ> raw) (tweets (fst rw)), meta_errors (metadata (fst rw))))
     (maximizeUserTweetCollection two_then_401 ''42'' ''bob'' (init_world 1000000)) =
   Some ([''a'', ''b''], [''Page 2: Unauthorized''])"
proof -
  let ?s1 = "init_lstate\<lparr>allTweets := [\<lparr>tweet_id = ''a'', created_at = 5000, media_keys = None\<rparr>,
                              \<lparr>tweet_id = ''b'', created_at = 4000, media_keys = None\<rparr>],
              nextToken := Some ''p2'', hasMoreData := True, pagesProcessed := 1\<rparr>"
  let ?w1 = "(init_world 1000000)\<lparr>requestCount := 1, windowStartTime := 1000000, calls := 1,
               completions := [1000000]\<rparr>"
  let ?w2 = "(init_world 1000000)\<lparr>requestCount := 2, windowStartTime := 1000000, calls := 2,
               completions := [1000000, 1000000]\<rparr>"
  let ?e = "\<lparr>code = Some 401, message = ''Unauthorized''\<rparr>"
  have p1: "page_attempt source_limits (two_then_401 ''42'') init_lstate (init_world 1000000) =
              (ToCondition, ?s1, ?w1)"
    by (simp add: collector_eval two_then_401_def)
  have lc: "loop_condition source_limits ?s1"
    by (simp add: collector_eval)
  have r: "reaches source_limits (two_then_401 ''42'') (init_lstate, init_world 1000000) (?s1, ?w1)"
    by (rule reaches.next_pass[OF reaches.at_start p1 lc])
  have ne: "allTweets ?s1 \<noteq> []" by simp
  have f: "fetch_page (two_then_401 ''42'') ?s1 ?w1 = (Inl (Some ?e), ?w2)"
    by (simp add: collector_eval two_then_401_def)
  have c: "code ?e \<noteq> Some 429" by simp
  from partial_data_survives_fatal_error[where client = two_then_401 and userId = "''42''"
         and username = "''bob''", OF r ne f c]
  show ?thesis
    by (auto simp: init_lstate_def string_of_nat.simps digit_char_def)
qed

text \<open>
  Claim C4, as the code has it. The function has no path on which an exception leaves
  it: a run that stands at the top of the loop body with no record collected, and whose
  next fetch raises an error with a code other than 429, returns a result with no
  tweets, with \<open>totalCollected = 0\<close> and with the message of that error at the end
  of \<open>metadata.errors\<close>.
\<close>

theorem fatal_error_without_data_returns_empty_result:
  assumes "reaches source_limits (client userId) (init_lstate, w0) (s, w)"
      and "allTweets s = []"
      and "fetch_page (client userId) s w = (Inl (Some e), w')"
      and "code e \<noteq> Some 429"
  shows "\<exists>r. maximizeUserTweetCollection client userId username w0 = Some (r, w') \<and>
             tweets r = [] \<and>
             totalCollected (metadata r) = 0 \<and>
             meta_errors (metadata r) =
               errors s @ [''Page '' @ string_of_nat (pagesProcessed s + 1) @ '': '' @ message e]"
proof -
  let ?s' = "s\<lparr>errors := errors s @
                 [''Page '' @ string_of_nat (pagesProcessed s + 1) @ '': '' @ message e]\<rparr>"
  have "page_attempt source_limits (client userId) s w = (Break, ?s', w')"
    using page_attempt_fatal[OF assms(3,4)] assms(2) by simp
  then have "maximizeUserTweetCollection client userId username w0 =
               Some (assemble username ?s' w', w')"
    unfolding maximizeUserTweetCollection_def by (rule collect_from_break[OF assms(1)])
  moreover have "tweets (assemble username ?s' w') = []"
    using assms(2) by (simp add: assemble_def Let_def)
  moreover have "totalCollected (metadata (assemble username ?s' w')) = 0"
    using assms(2) by (simp add: assemble_total)
  ultimately show ?thesis
    by (simp add: assemble_errors)
qed

theorem fatal_error_without_data_returns_empty_result_witness:
  "map_option (\<lambda>rw. (tweets (fst rw), totalCollected (metadata (fst rw)),
                      meta_errors (metadata (fst rw)), calls (snd rw)))
     (maximizeUserTweetCollection always_401 ''42'' ''bob'' (init_world 1000000)) =
   Some ([], 0, [''Page 1: Unauthorized''], 1)"
proof -
  let ?w1 = "(init_world 1000000)\<lparr>requestCount := 1, windowStartTime := 1000000, calls := 1,
               completions := [1000000]\<rparr>"
  let ?e = "\<lparr>code = Some 401, message = ''Unauthorized''\<rparr>"
  have e: "allTweets init_lstate = []" by (simp add: init_lstate_def)
  have f: "fetch_page (always_401 ''42'') init_lstate (init_world 1000000) = (Inl (Some ?e), ?w1)"
    by (simp add: collector_eval always_401_def)
  have c: "code ?e \<noteq> Some 429" by simp
  from fatal_error_without_data_returns_empty_result[where client = always_401
         and userId = "''42''" and username = "''bob''", OF reaches.at_start e f c]
  show ?thesis
    by (auto simp: init_lstate_def init_world_def string_of_nat.simps digit_char_def)
qed

text \<open>
  Claim C4 as stated has the error reach the caller when no record was collected. When
  the very first fetch fails with 401, the call returns: an empty result with the error
  in \<open>metadata.errors\<close>, after one invocation of the endpoint.
\<close>

theorem fatal_error_on_first_page_returns_counterexample:
  "maximizeUserTweetCollection always_401 ''42'' ''bob'' (init_world 1000000) =
     Some (\<lparr>tweets = [],
            metadata = \<lparr>totalCollected = 0, meta_pagesProcessed = 0, oldestTweetDate = None,
                        newestTweetDate = None, timeSpanDays = 0, meta_hasMoreData = False,
                        collectionStrategy = ''maximum_unlimited_historical'',
                        meta_rateLimitHits = 0,
                        meta_errors = [''Page 1: Unauthorized'']\<rparr>\<rparr>,
           \<lparr>clock = 1000000, requestCount = 1, windowStartTime = 1000000, calls = 1,
            sleeps = [], completions = [1000000]\<rparr>)"
  unfolding maximizeUserTweetCollection_def collect_from_def
  by (subst collect_loop.simps)
     (simp add: collector_eval always_401_def outer_catch_def assemble_def)

text \<open>
  Claim C6, the code at the failing input. The endpoint answers every call with 429 and
  nothing has been collected. The retry wrapper invokes it twice, three seconds apart;
  the handler counts one rate-limit hit, records it, sleeps five seconds and executes
  \<open>continue\<close>, which in a \<open>do \<dots> while\<close> goes to the loop condition. \<open>nextToken\<close> is
  still \<open>undefined\<close> there, so the loop ends: the call returns an empty result after
  two invocations, and no further fetch is attempted.
\<close>

theorem rate_limit_on_first_page_ends_the_loop:
  "maximizeUserTweetCollection always_429 ''42'' ''bob'' (init_world 1000000) =
     Some (\<lparr>tweets = [],
            metadata = \<lparr>totalCollected = 0, meta_pagesProcessed = 0, oldestTweetDate = None,
                        newestTweetDate = None, timeSpanDays = 0, meta_hasMoreData = False,
                        collectionStrategy = ''maximum_unlimited_historical'',
                        meta_rateLimitHits = 1,
                        meta_errors = [''Rate limit on page 1'']\<rparr>\<rparr>,
           \<lparr>clock = 1008000, requestCount = 1, windowStartTime = 1000000, calls = 2,
            sleeps = [3000, 5000], completions = [1000000]\<rparr>)"
  unfolding maximizeUserTweetCollection_def collect_from_def
  by (subst collect_loop.simps)
     (simp add: collector_eval always_429_def outer_catch_def assemble_def)

lemma target_stop:
  assumes "reaches cfg upstream (init_lstate, w0) (s, w)"
      and "fetch_page upstream s w = (Inr resp, w')"
      and "data resp = Some page" "page \<noteq> []"
      and "targetTweetCount cfg \<le> length (allTweets s) + length page"
  shows "(allTweets s = [] \<or> length (allTweets s) < targetTweetCount cfg) \<and>
         (\<exists>r. collect_from cfg upstream username init_lstate w0 = Some (r, w') \<and>
              map raw (tweets r) = allTweets s @ page)"
proof -
  let ?s' = "s\<lparr>allTweets := allTweets s @ page, consecutiveEmptyPages := 0, shouldStop := True\<rparr>"
  have "page_attempt cfg upstream s w = (Break, ?s', w')"
    by (rule page_attempt_target[OF assms(2-5)])
  then have "collect_from cfg upstream username init_lstate w0 =
               Some (assemble username ?s' w', w')"
    by (rule collect_from_break[OF assms(1)])
  moreover have "allTweets s = [] \<or> length (allTweets s) < targetTweetCount cfg"
    using reaches_below_target[OF assms(1)] by simp
  ultimately show ?thesis by (simp add: assemble_tweets)
qed

text \<open>
  The scenario with a target of 250 and pages of 100: the run stands at the top of the
  loop body after two pages, and the third fetch brings a third page.
\<close>

lemma target_250_third_page:
  "reaches target_250 pages_of_100 (init_lstate, init_world 1000000)
     (init_lstate\<lparr>allTweets := replicate 100 sample_tweet @ replicate 100 sample_tweet,
                  nextToken := Some ''more'', hasMoreData := True, pagesProcessed := 2\<rparr>,
      (init_world 1000000)\<lparr>requestCount := 2, windowStartTime := 1000000, calls := 2,
                            completions := [1000000, 1000000]\<rparr>) \<and>
   fetch_page pages_of_100
     (init_lstate\<lparr>allTweets := replicate 100 sample_tweet @ replicate 100 sample_tweet,
                  nextToken := Some ''more'', hasMoreData := True, pagesProcessed := 2\<rparr>)
     ((init_world 1000000)\<lparr>requestCount := 2, windowStartTime := 1000000, calls := 2,
                            completions := [1000000, 1000000]\<rparr>) =
     (Inr \<lparr>data = Some (replicate 100 sample_tweet), includes_media = None,
           next_token = Some ''more''\<rparr>,
      (init_world 1000000)\<lparr>requestCount := 3, windowStartTime := 1000000, calls := 3,
                            completions := [1000000, 1000000, 1000000]\<rparr>)"
proof -
  let ?page = "replicate 100 sample_tweet"
  let ?w0 = "init_world 1000000"
  let ?s1 = "init_lstate\<lparr>allTweets := ?page, nextToken := Some ''more'', hasMoreData := True,
               pagesProcessed := 1\<rparr>"
  let ?w1 = "?w0\<lparr>requestCount := 1, windowStartTime := 1000000, calls := 1,
               completions := [1000000]\<rparr>"
  let ?s2 = "init_lstate\<lparr>allTweets := ?page @ ?page, nextToken := Some ''more'',
               hasMoreData := True, pagesProcessed := 2\<rparr>"
  let ?w2 = "?w0\<lparr>requestCount := 2, windowStartTime := 1000000, calls := 2,
               completions := [1000000, 1000000]\<rparr>"
  have p1: "page_attempt target_250 pages_of_100 init_lstate ?w0 = (ToCondition, ?s1, ?w1)"
    by (simp add: collector_eval pages_of_100_def target_250_def)
  have c1: "loop_condition target_250 ?s1"
    by (simp add: collector_eval target_250_def)
  have p2: "page_attempt target_250 pages_of_100 ?s1 ?w1 = (ToCondition, ?s2, ?w2)"
    by (simp add: collector_eval pages_of_100_def target_250_def)
  have c2: "loop_condition target_250 ?s2"
    by (simp add: collector_eval target_250_def)
  have r: "reaches target_250 pages_of_100 (init_lstate, ?w0) (?s2, ?w2)"
    by (rule reaches.next_pass[OF reaches.next_pass[OF reaches.at_start p1 c1] p2 c2])
  moreover have "fetch_page pages_of_100 ?s2 ?w2 =
     (Inr \<lparr>data = Some ?page, includes_media = None, next_token = Some ''more''\<rparr>,
      ?w0\<lparr>requestCount := 3, windowStartTime := 1000000, calls := 3,
          completions := [1000000, 1000000, 1000000]\<rparr>)"
    by (simp add: collector_eval pages_of_100_def)
  ultimately show ?thesis by simp
qed

lemma target_250_run:
  "map_option (\<lambda>rw. (length (tweets (fst rw)), calls (snd rw)))
     (collect_from target_250 pages_of_100 ''bob'' init_lstate (init_world 1000000)) =
   Some (300, 3)"
proof -
  let ?page = "replicate 100 sample_tweet"
  let ?w3 = "(init_world 1000000)\<lparr>requestCount := 3, windowStartTime := 1000000, calls := 3,
               completions := [1000000, 1000000, 1000000]\<rparr>"
  have "\<exists>r. collect_from target_250 pages_of_100 ''bob'' init_lstate (init_world 1000000) =
               Some (r, ?w3) \<and>
             map raw (tweets r) = (?page @ ?page) @ ?page"
    using target_stop[OF conjunct1[OF target_250_third_page] conjunct2[OF target_250_third_page],
            of ?page "''bob''"]
    by (simp add: target_250_def source_limits_def)
  then obtain r where r: "collect_from target_250 pages_of_100 ''bob'' init_lstate
                            (init_world 1000000) = Some (r, ?w3)"
    and m: "map raw (tweets r) = (?page @ ?page) @ ?page" by blast
  have "length (tweets r) = length (map raw (tweets r))" by simp
  also have "\<dots> = 300" unfolding m by simp
  finally show ?thesis using r by (simp add: init_world_def)
qed

text \<open>
  Claim C5. Take a run that stands at the top of the loop body, and let the next fetch
  bring a non-empty page with which the number of collected records reaches the target.
  Then no earlier page had reached the target (nothing was collected yet, or the count
  was below the target), and the call returns the records collected so far followed by
  this page, the world being as this fetch left it: no further page is fetched.
  Concretely, with a target of 250 and pages of 100 records the endpoint is invoked
  exactly 3 times and the result has 300 records. \<open>maximizeUserTweetCollection\<close> is
  \<open>collect_from source_limits\<close>, with the target 15000. The \<open>break\<close> comes before
  \<open>pagesProcessed++\<close>, so the counter does not include the page that crosses the target.
\<close>

theorem stops_on_first_page_crossing_target:
  assumes "reaches cfg upstream (init_lstate, w0) (s, w)"
      and "fetch_page upstream s w = (Inr resp, w')"
      and "data resp = Some page" "page \<noteq> []"
      and "targetTweetCount cfg \<le> length (allTweets s) + length page"
  shows "((allTweets s = [] \<or> length (allTweets s) < targetTweetCount cfg) \<and>
          (\<exists>r. collect_from cfg upstream username init_lstate w0 = Some (r, w') \<and>
               map raw (tweets r) = allTweets s @ page)) \<and>
         map_option (\<lambda>rw. (length (tweets (fst rw)), calls (snd rw)))
           (collect_from target_250 pages_of_100 ''bob'' init_lstate (init_world 1000000)) =
         Some (300, 3)"
  using target_stop[OF assms] target_250_run by simp

theorem stops_on_first_page_crossing_target_witness:
  "\<exists>r. collect_from target_250 pages_of_100 ''bob'' init_lstate (init_world 1000000) =
          Some (r, (init_world 1000000)\<lparr>requestCount := 3, windowStartTime := 1000000,
                      calls := 3, completions := [1000000, 1000000, 1000000]\<rparr>) \<and>
        map raw (tweets r) = replicate 300 sample_tweet"
proof -
  have eq: "replicate 100 sample_tweet @ replicate 100 sample_tweet @ replicate 100 sample_tweet =
            replicate 300 sample_tweet"
    by (simp flip: replicate_add)
  from stops_on_first_page_crossing_target[OF conjunct1[OF target_250_third_page]
         conjunct2[OF target_250_third_page], of "replicate 100 sample_tweet" "''bob''"]
  show ?thesis
    by (simp add: target_250_def source_limits_def eq)
qed

subsection \<open>The cache: eviction and writing\<close>

lemma keepCount_div: "keepCount n = (7 * n + 9) div 10"
proof -
  have "rat_of_nat n * (7 / 10) = of_int (7 * int n) / of_int 10" by simp
  then have "\<lceil>rat_of_nat n * (7 / 10)\<rceil> = - (- (7 * int n) div 10)"
    by (simp only: ceiling_divide_eq_div)
  also have "\<dots> = int ((7 * n + 9) div 10)" by (simp add: zdiv_int)
  finally show ?thesis by (simp add: keepCount_def)
qed

lemma keepCount_le: "keepCount n \<le> n"
  by (simp add: keepCount_div)

lemma keepCount_real: "int (keepCount n) = \<lceil>7 * real n / 10\<rceil>"
proof -
  have "7 * real n / 10 = of_int (7 * int n) / of_int 10" by simp
  then have "\<lceil>7 * real n / 10\<rceil> = - (- (7 * int n) div 10)"
    by (simp only: ceiling_divide_eq_div)
  also have "\<dots> = int ((7 * n + 9) div 10)" by (simp add: zdiv_int)
  finally show ?thesis by (simp add: keepCount_div)
qed

subsubsection \<open>Objects\<close>

lemma set_insert_index: "set (insert_index k v obj) = insert (k, v) (set obj)"
  by (induction obj) auto

lemma length_insert_index: "length (insert_index k v obj) = Suc (length obj)"
  by (induction obj) auto

lemma set_add_property: "set (add_property k v obj) = insert (k, v) (set obj)"
  by (simp add: add_property_def set_insert_index)

lemma length_add_property: "length (add_property k v obj) = Suc (length obj)"
  by (simp add: add_property_def length_insert_index)








lemma fold_define_fresh:
  "distinct (map fst kvs) \<Longrightarrow> fst ` set kvs \<inter> fst ` set obj = {} \<Longrightarrow>
   set (fold (\<lambda>kv obj. define_property (fst kv) (snd kv) obj) kvs obj) = set kvs \<union> set obj \<and>
   length (fold (\<lambda>kv obj. define_property (fst kv) (snd kv) obj) kvs obj) = length kvs + length obj"
proof (induction kvs arbitrary: obj)
  case Nil
  then show ?case by simp
next
  case (Cons kv kvs)
  have new: "fst kv \<notin> set (map fst obj)" using Cons.prems(2) by auto
  then have d: "define_property (fst kv) (snd kv) obj = add_property (fst kv) (snd kv) obj"
    by (simp add: define_property_def)
  have s: "set (define_property (fst kv) (snd kv) obj) = insert kv (set obj)"
    by (simp add: d set_add_property)
  have l: "length (define_property (fst kv) (snd kv) obj) = Suc (length obj)"
    by (simp add: d length_add_property)
  have "distinct (map fst kvs)" using Cons.prems(1) by simp
  moreover have "fst ` set kvs \<inter> fst ` set (define_property (fst kv) (snd kv) obj) = {}"
    using Cons.prems by (auto simp: s)
  ultimately show ?case
    using Cons.IH[of "define_property (fst kv) (snd kv) obj"] by (simp add: s l)
qed

lemma fromEntries_set: "distinct (map fst kvs) \<Longrightarrow> set (fromEntries kvs) = set kvs"
  using fold_define_fresh[of kvs "[]"] by (simp add: fromEntries_def)

lemma fromEntries_length: "distinct (map fst kvs) \<Longrightarrow> length (fromEntries kvs) = length kvs"
  using fold_define_fresh[of kvs "[]"] by (simp add: fromEntries_def)

lemma keys_insert_index: "set (map fst (insert_index k v obj)) = insert k (set (map fst obj))"
  by (induction obj) auto

lemma distinct_insert_index:
  "k \<notin> set (map fst obj) \<Longrightarrow> distinct (map fst obj) \<Longrightarrow> distinct (map fst (insert_index k v obj))"
  by (induction obj) (auto simp: set_insert_index)

lemma distinct_define_property:
  "distinct (map fst obj) \<Longrightarrow> distinct (map fst (define_property k v obj))"
  by (auto simp: define_property_def add_property_def distinct_insert_index update_keys)

lemma distinct_fold_define:
  "distinct (map fst obj) \<Longrightarrow>
   distinct (map fst (fold (\<lambda>kv obj. define_property (fst kv) (snd kv) obj) kvs obj))"
  by (induction kvs arbitrary: obj) (simp_all add: distinct_define_property)

lemma js_object_distinct: "js_object obj \<Longrightarrow> distinct (map fst obj)"
  using distinct_fold_define[of "[]" obj] by (simp add: js_object_def fromEntries_def)

subsubsection \<open>Sorting\<close>

lemma mset_insert_by: "mset (insert_by after x ys) = add_mset x (mset ys)"
  by (induction ys) auto

lemma mset_sort_by: "mset (sort_by after xs) = mset xs"
  by (induction xs) (simp_all add: sort_by_def mset_insert_by)


lemma length_sort_by: "length (sort_by after xs) = length xs"
  using mset_sort_by[of after xs] by (metis size_mset)

lemma sorted_insert_by:
  fixes f :: "'a \<Rightarrow> 'f::linorder"
  assumes "\<And>x y. after x y \<longleftrightarrow> f x < f y"
  shows "sorted_wrt (\<lambda>a b. f b \<le> f a) ys \<Longrightarrow> sorted_wrt (\<lambda>a b. f b \<le> f a) (insert_by after x ys)"
proof (induction ys)
  case Nil
  then show ?case by simp
next
  case (Cons y ys)
  have s: "set (insert_by after x ys) = insert x (set ys)"
    using mset_insert_by[of after x ys] by (metis set_mset_add_mset_insert set_mset_mset)
  show ?case
  proof (cases "after x y")
    case True
    then have "f x < f y" using assms by simp
    then show ?thesis using Cons True by (auto simp: s)
  next
    case False
    then have "f y \<le> f x" using assms by (simp add: not_less)
    then show ?thesis using Cons.prems False by auto
  qed
qed

lemma sorted_sort_by:
  fixes f :: "'a \<Rightarrow> 'f::linorder"
  assumes "\<And>x y. after x y \<longleftrightarrow> f x < f y"
  shows "sorted_wrt (\<lambda>a b. f b \<le> f a) (sort_by after xs)"
  by (induction xs) (simp_all add: sort_by_def sorted_insert_by[OF assms])

lemma distinct_keys_sort_by:
  assumes "distinct (map fst xs)"
  shows "distinct (map fst (take k (sort_by after xs)))"
proof -
  have "mset (map fst (sort_by after xs)) = mset (map fst xs)"
    by (simp add: mset_sort_by)
  then have "distinct (map fst (sort_by after xs))"
    using assms by (metis mset_eq_imp_distinct_iff)
  then show ?thesis by (simp add: take_map[symmetric])
qed



subsubsection \<open>Eviction\<close>

lemma sorts_after_score:
  "sign_exact A \<Longrightarrow>
   sorts_after A now a b \<longleftrightarrow>
     calculateAccountCacheScore A now (snd a) < calculateAccountCacheScore A now (snd b)"
  by (simp add: sorts_after_def sign_exact_def)

lemma ranked_mset: "mset (ranked A now d) = mset (accounts d)"
  by (simp add: ranked_def mset_sort_by)

lemma ranked_length: "length (ranked A now d) = length (accounts d)"
  by (simp add: ranked_def length_sort_by)

lemma ranked_sorted:
  assumes "sign_exact A"
  shows "sorted_wrt (\<lambda>a b. calculateAccountCacheScore A now (snd b) \<le>
                            calculateAccountCacheScore A now (snd a)) (ranked A now d)"
  unfolding ranked_def
  by (rule sorted_sort_by[where f = "\<lambda>e. calculateAccountCacheScore A now (snd e)"])
     (rule sorts_after_score[OF assms])

lemma ranked_split:
  assumes "sign_exact A"
  shows "\<forall>x\<in>set (take k (ranked A now d)). \<forall>y\<in>set (drop k (ranked A now d)).
           calculateAccountCacheScore A now (snd y) \<le> calculateAccountCacheScore A now (snd x)"
proof -
  have "sorted_wrt (\<lambda>a b. calculateAccountCacheScore A now (snd b) \<le>
                           calculateAccountCacheScore A now (snd a))
          (take k (ranked A now d) @ drop k (ranked A now d))"
    using ranked_sorted[OF assms] by simp
  then show ?thesis unfolding sorted_wrt_append by blast
qed

lemma cleanup_accounts:
  "accounts (performIntelligentCleanup A now d) =
     fromEntries (take (keepCount (length (accounts d))) (ranked A now d))"
  by (simp add: performIntelligentCleanup_def Let_def ranked_def length_sort_by)

lemma kept_distinct:
  assumes "js_object (accounts d)"
  shows "distinct (map fst (take k (ranked A now d)))"
  unfolding ranked_def by (rule distinct_keys_sort_by[OF js_object_distinct[OF assms]])

lemma cleanup_survivors:
  assumes "js_object (accounts d)"
  shows "set (accounts (performIntelligentCleanup A now d)) =
           set (take (keepCount (length (accounts d))) (ranked A now d))"
  by (simp add: cleanup_accounts fromEntries_set[OF kept_distinct[OF assms]])

lemma cleanup_length:
  assumes "js_object (accounts d)"
  shows "length (accounts (performIntelligentCleanup A now d)) = keepCount (length (accounts d))"
  by (simp add: cleanup_accounts fromEntries_length[OF kept_distinct[OF assms]] ranked_length
        keepCount_le)

lemma fromEntries_mset:
  assumes "distinct (map fst kvs)"
  shows "mset (fromEntries kvs) = mset kvs"
proof -
  have "distinct (map fst (fromEntries kvs))"
    using distinct_fold_define[of "[]" kvs] by (simp add: fromEntries_def)
  then have "distinct (fromEntries kvs)" by (rule distinct_map[THEN iffD1, THEN conjunct1])
  moreover have "distinct kvs" using assms by (rule distinct_map[THEN iffD1, THEN conjunct1])
  ultimately show ?thesis
    using fromEntries_set[OF assms] by (simp add: set_eq_iff_mset_eq_distinct)
qed

lemma cleanup_counters:
  assumes "js_object (accounts d)"
  shows "totalAccounts (globalMetadata (performIntelligentCleanup A now d)) =
           length (accounts (performIntelligentCleanup A now d)) \<and>
         totalTweets (globalMetadata (performIntelligentCleanup A now d)) =
           sum_list (map (\<lambda>e. length (cached_tweets (snd e)))
                      (accounts (performIntelligentCleanup A now d)))"
proof -
  let ?kept = "take (keepCount (length (accounts d))) (ranked A now d)"
  have m: "mset (fromEntries ?kept) = mset ?kept"
    by (rule fromEntries_mset[OF kept_distinct[OF assms]])
  have "sum_list (map (\<lambda>e. length (cached_tweets (snd e))) (fromEntries ?kept)) =
        sum_mset (image_mset (\<lambda>e. length (cached_tweets (snd e))) (mset (fromEntries ?kept)))"
    by (simp only: sum_mset_sum_list[symmetric] mset_map)
  also have "\<dots> = sum_list (map (\<lambda>e. length (cached_tweets (snd e))) ?kept)"
    unfolding m by (simp only: sum_mset_sum_list[symmetric] mset_map)
  finally have "sum_list (map (\<lambda>e. length (cached_tweets (snd e))) (fromEntries ?kept)) =
        sum_list (map (\<lambda>e. length (cached_tweets (snd e))) ?kept)" .
  moreover have "length (fromEntries ?kept) = length ?kept"
    by (rule fromEntries_length[OF kept_distinct[OF assms]])
  ultimately show ?thesis
    unfolding cleanup_accounts
    by (simp add: performIntelligentCleanup_def Let_def ranked_def length_sort_by)
qed

lemma score_formula:
  "calculateAccountCacheScore A now a =
     fadd A
       (fadd A
          (fadd A
             (max (number A 0)
                (fsub A (number A 1)
                   (fdiv A (fdiv A (number A (now - cm_collectionTime a)) (number A (1000 * 60 * 60)))
                      (number A 24))))
             (fdiv A (number A (int (length (cached_tweets a)))) (number A 1000)))
          (fdiv A (number A (cm_timeSpanDays a)) (number A 365)))
       (fdiv A (number A (stats_totalEngagement a)) (number A 10000))"
  by (simp add: calculateAccountCacheScore_def getRecencyScore_def Let_def)

lemma sign_exact_exact_arith: "sign_exact exact_arith"
  by (simp add: sign_exact_def exact_arith_def)

lemmas cache_eval =
  setAccountData_def put_try_def getAllData_def getAccountData_def clear_def updated_cache_def
  compressData_def decompressData_def blob_size_def compressed_size_def entry_bytes_def
  setItem_cache_def setItem_expiry_def toLowerCase_def lower_char_def
  performIntelligentCleanup_def keepCount_div fromEntries_def define_property_def
  assign_property_def add_property_def is_array_index_def is_digit_def digit_value_def
  index_of_def get_property_def sort_by_def sorts_after_def calculateAccountCacheScore_def
  getRecencyScore_def exact_arith_def MAX_STORAGE_SIZE_def CACHE_DURATION_def Let_def
  string_of_nat.simps digit_char_def demo_platform_def demo_account_def demo_store_def
  demo_session_def corrupt_session_def fresh_cache_def

text \<open>
  Claim C9. For every arithmetic in which a difference is positive exactly when its
  first operand is the greater, as it is for the doubles, and for a store that is an
  object: the score of an entry is the sum, taken from the left, of the recency score
  \<open>max(0, 1 - hoursSinceCollection / 24)\<close>, the record count over 1000, the time span
  in days over 365 and the total engagement over 10000; the ranking is a permutation of
  the entries in descending order of score; eviction builds its result from the first
  \<open>ceil(0.7 * n)\<close> entries of the ranking, and the survivors are exactly these, so every
  survivor scores at least as high as every discarded entry; 3 of 3 and 7 of 10
  survive; and \<open>totalAccounts\<close> and \<open>totalTweets\<close> are recomputed from the survivors.
\<close>

theorem eviction_keeps_highest_scoring:
  assumes "sign_exact A" and "js_object (accounts d)"
  shows "(\<forall>a. calculateAccountCacheScore A now a =
            fadd A
              (fadd A
                 (fadd A
                    (max (number A 0)
                       (fsub A (number A 1)
                          (fdiv A (fdiv A (number A (now - cm_collectionTime a))
                                     (number A (1000 * 60 * 60)))
                             (number A 24))))
                    (fdiv A (number A (int (length (cached_tweets a)))) (number A 1000)))
                 (fdiv A (number A (cm_timeSpanDays a)) (number A 365)))
              (fdiv A (number A (stats_totalEngagement a)) (number A 10000))) \<and>
         mset (ranked A now d) = mset (accounts d) \<and>
         sorted_wrt (\<lambda>a b. calculateAccountCacheScore A now (snd b) \<le>
                           calculateAccountCacheScore A now (snd a)) (ranked A now d) \<and>
         accounts (performIntelligentCleanup A now d) =
           fromEntries (take (keepCount (length (accounts d))) (ranked A now d)) \<and>
         set (accounts (performIntelligentCleanup A now d)) =
           set (take (keepCount (length (accounts d))) (ranked A now d)) \<and>
         (\<forall>x\<in>set (accounts (performIntelligentCleanup A now d)).
            \<forall>y\<in>set (drop (keepCount (length (accounts d))) (ranked A now d)).
              calculateAccountCacheScore A now (snd y) \<le>
              calculateAccountCacheScore A now (snd x)) \<and>
         length (accounts (performIntelligentCleanup A now d)) = keepCount (length (accounts d)) \<and>
         int (keepCount (length (accounts d))) = \<lceil>7 * real (length (accounts d)) / 10\<rceil> \<and>
         (length (accounts d) = 3 \<longrightarrow> length (accounts (performIntelligentCleanup A now d)) = 3) \<and>
         (length (accounts d) = 10 \<longrightarrow> length (accounts (performIntelligentCleanup A now d)) = 7) \<and>
         totalAccounts (globalMetadata (performIntelligentCleanup A now d)) =
           length (accounts (performIntelligentCleanup A now d)) \<and>
         totalTweets (globalMetadata (performIntelligentCleanup A now d)) =
           sum_list (map (\<lambda>e. length (cached_tweets (snd e)))
                      (accounts (performIntelligentCleanup A now d)))"
proof -
  have three: "length (accounts d) = 3 \<longrightarrow>
                 length (accounts (performIntelligentCleanup A now d)) = 3"
    by (simp add: cleanup_length[OF assms(2)] keepCount_div)
  have ten: "length (accounts d) = 10 \<longrightarrow>
               length (accounts (performIntelligentCleanup A now d)) = 7"
    by (simp add: cleanup_length[OF assms(2)] keepCount_div)
  have split: "\<forall>x\<in>set (accounts (performIntelligentCleanup A now d)).
            \<forall>y\<in>set (drop (keepCount (length (accounts d))) (ranked A now d)).
              calculateAccountCacheScore A now (snd y) \<le>
              calculateAccountCacheScore A now (snd x)"
    unfolding cleanup_survivors[OF assms(2)] by (rule ranked_split[OF assms(1)])
  show ?thesis
    by (intro conjI allI score_formula ranked_mset ranked_sorted[OF assms(1)] cleanup_accounts
          cleanup_survivors[OF assms(2)] split cleanup_length[OF assms(2)] keepCount_real
          three ten conjunct1[OF cleanup_counters[OF assms(2)]]
          conjunct2[OF cleanup_counters[OF assms(2)]])
qed

theorem eviction_keeps_highest_scoring_witness:
  "sign_exact exact_arith \<and>
   js_object (accounts (demo_store
      [(''123'', demo_account 500 3600000 100), (''bob'', demo_account 100 0 10),
       (''dave'', demo_account 10 0 0), (''alice'', demo_account 2000 7200000 5000)])) \<and>
   map fst (ranked exact_arith 7200000 (demo_store
      [(''123'', demo_account 500 3600000 100), (''bob'', demo_account 100 0 10),
       (''dave'', demo_account 10 0 0), (''alice'', demo_account 2000 7200000 5000)])) =
     [''alice'', ''123'', ''bob'', ''dave''] \<and>
   map fst (accounts (performIntelligentCleanup exact_arith 7200000 (demo_store
      [(''123'', demo_account 500 3600000 100), (''bob'', demo_account 100 0 10),
       (''dave'', demo_account 10 0 0), (''alice'', demo_account 2000 7200000 5000)]))) =
     [''123'', ''alice'', ''bob''] \<and>
   length (accounts (performIntelligentCleanup exact_arith 7200000 (demo_store
      [(''123'', demo_account 500 3600000 100), (''bob'', demo_account 100 0 10),
       (''dave'', demo_account 10 0 0), (''alice'', demo_account 2000 7200000 5000)]))) = 3 \<and>
   totalAccounts (globalMetadata (performIntelligentCleanup exact_arith 7200000 (demo_store
      [(''123'', demo_account 500 3600000 100), (''bob'', demo_account 100 0 10),
       (''dave'', demo_account 10 0 0), (''alice'', demo_account 2000 7200000 5000)]))) = 3"
proof -
  let ?d = "demo_store
      [(''123'', demo_account 500 3600000 100), (''bob'', demo_account 100 0 10),
       (''dave'', demo_account 10 0 0), (''alice'', demo_account 2000 7200000 5000)]"
  have obj: "js_object (accounts ?d)"
    by (simp add: js_object_def cache_eval)
  have r: "map fst (ranked exact_arith 7200000 ?d) = [''alice'', ''123'', ''bob'', ''dave'']"
    by (simp add: ranked_def cache_eval)
  have a: "map fst (accounts (performIntelligentCleanup exact_arith 7200000 ?d)) =
             [''123'', ''alice'', ''bob'']"
    by (simp add: cache_eval)
  have n: "keepCount (length (accounts ?d)) = 3"
    by (simp add: keepCount_div demo_store_def)
  note t = eviction_keeps_highest_scoring[OF sign_exact_exact_arith obj, of 7200000]
  from t have "length (accounts (performIntelligentCleanup exact_arith 7200000 ?d)) =
                 keepCount (length (accounts ?d))"
    by (elim conjE)
  then have l: "length (accounts (performIntelligentCleanup exact_arith 7200000 ?d)) = 3"
    unfolding n .
  from t have "totalAccounts (globalMetadata (performIntelligentCleanup exact_arith 7200000 ?d)) =
                 length (accounts (performIntelligentCleanup exact_arith 7200000 ?d))"
    by (elim conjE)
  then have ta: "totalAccounts (globalMetadata (performIntelligentCleanup exact_arith 7200000 ?d)) = 3"
    unfolding l .
  show ?thesis
    using sign_exact_exact_arith obj r a l ta by blast
qed







lemma put_try_browser: "browser (snd (put_try A P now username accountData st)) = browser st"
  by (auto simp: put_try_def Let_def getAllData_def clear_def compressData_def setItem_cache_def
        setItem_expiry_def split: if_splits sum.splits option.splits stored.splits)

lemma get_after_clear:
  "cache_item st = None \<Longrightarrow> expiry_item st = None \<Longrightarrow>
   fst (getAccountData later key st) = NotFound"
  by (simp add: getAccountData_def getAllData_def clear_def)

text \<open>
  Claim C10, as the code has it. In a browser, when the \<open>try\<close> block of
  \<open>setAccountData\<close> throws, which it does when \<open>compressData\<close> or \<open>setItem\<close> throws,
  both items are gone from the storage afterwards, and \<open>getAccountData\<close> returns
  not-found for every key at every later time.
\<close>

theorem put_failure_clears_store:
  assumes "browser st"
      and "fst (put_try A P now username accountData st) = Inl err"
  shows "cache_item (setAccountData A P now username accountData st) = None \<and>
         expiry_item (setAccountData A P now username accountData st) = None \<and>
         (\<forall>later key.
            fst (getAccountData later key (setAccountData A P now username accountData st)) =
              NotFound)"
proof -
  let ?st' = "snd (put_try A P now username accountData st)"
  have b: "browser ?st'" using put_try_browser[of A P now username accountData st] assms(1) by simp
  have "setAccountData A P now username accountData st = clear ?st'"
    using assms
    by (cases "put_try A P now username accountData st") (auto simp: setAccountData_def)
  then have c: "cache_item (setAccountData A P now username accountData st) = None"
    and e: "expiry_item (setAccountData A P now username accountData st) = None"
    using b by (simp_all add: clear_def)
  show ?thesis using c e get_after_clear by blast
qed

theorem put_failure_clears_store_witness:
  "fst (getAccountData 7200000 ''alice'' (demo_session [(''alice'', demo_account 5 0 10)])) =
     Found (demo_account 5 0 10) \<and>
   fst (put_try exact_arith tight_platform 7200000 ''bob'' (demo_account 20 7200000 10)
          (demo_session [(''alice'', demo_account 5 0 10)])) = Inl QuotaExceededError \<and>
   fst (getAccountData 7200000 ''alice''
          (setAccountData exact_arith tight_platform 7200000 ''bob'' (demo_account 20 7200000 10)
             (demo_session [(''alice'', demo_account 5 0 10)]))) = NotFound"
proof -
  let ?st = "demo_session [(''alice'', demo_account 5 0 10)]"
  have h1: "browser ?st" by (simp add: demo_session_def)
  have h2: "fst (put_try exact_arith tight_platform 7200000 ''bob'' (demo_account 20 7200000 10) ?st) =
              Inl QuotaExceededError"
    by (simp add: cache_eval tight_platform_def)
  have before: "fst (getAccountData 7200000 ''alice'' ?st) = Found (demo_account 5 0 10)"
    by (simp add: cache_eval)
  from put_failure_clears_store[OF h1 h2] before h2 show ?thesis by blast
qed

text \<open>
  Claim C10 as stated counts reading the existing store among the steps that make
  \<open>put\<close> fail. \<open>getAllData\<close> catches what the reading throws: on a cached text that
  does not parse it clears the storage and returns \<open>null\<close>, the \<open>try\<close> block goes on
  with a fresh store and commits it, and the key just written is found.
\<close>

theorem read_failure_does_not_fail_put_counterexample:
  "fst (getAllData 7200000 corrupt_session) = None \<and>
   fst (put_try exact_arith demo_platform 7200000 ''bob'' (demo_account 5 7200000 10)
          corrupt_session) = Inr () \<and>
   fst (getAccountData 7200000 ''bob''
          (setAccountData exact_arith demo_platform 7200000 ''bob'' (demo_account 5 7200000 10)
             corrupt_session)) = Found (demo_account 5 7200000 10)"
  by (simp add: cache_eval)

text \<open>
  The object model at work: assigning to \<open>__proto__\<close> creates no entry, a new array
  index is listed first, and a key that only the prototype has is not an account.
\<close>

lemma object_semantics_examples:
  "accounts (updated_cache 7200000 ''__proto__'' (demo_account 5 0 10)
      (Some (demo_store [(''alice'', demo_account 5 0 10)]))) = [(''alice'', demo_account 5 0 10)] \<and>
   map fst (accounts (updated_cache 7200000 ''123'' (demo_account 5 0 10)
      (Some (demo_store [(''alice'', demo_account 5 0 10), (''dave'', demo_account 5 0 10)])))) =
     [''123'', ''alice'', ''dave''] \<and>
   fst (getAccountData 7200000 ''Constructor'' (demo_session [(''alice'', demo_account 5 0 10)])) = Inherited"
  by (simp add: cache_eval)

end
